theory Spec2Isabelle
  imports Main
begin

section \<open>Python strings\<close>

text \<open>
  A Python \<open>str\<close> is a sequence of Unicode code points, so a string is a list of
  natural numbers here (an Isabelle \<open>char\<close> is a byte and cannot hold U+2003).
  \<open>pystr\<close> reads an ASCII literal of the source as such a list.
\<close>

type_synonym pystr = "nat list"

definition pystr :: "string \<Rightarrow> pystr" where
  "pystr s = map of_char s"

text \<open>
  \<open>str.isspace\<close> for one code point, which is what \<open>str.split()\<close> without a
  separator splits on: U+0009..U+000D, U+001C..U+0020, U+0085, U+00A0, U+1680,
  U+2000..U+200A, U+2028, U+2029, U+202F, U+205F, U+3000.
\<close>

definition isspace :: "nat \<Rightarrow> bool" where
  "isspace c \<longleftrightarrow>
     (9 \<le> c \<and> c \<le> 13) \<or> (28 \<le> c \<and> c \<le> 32) \<or> c = 133 \<or> c = 160 \<or> c = 5760 \<or>
     (8192 \<le> c \<and> c \<le> 8202) \<or> c = 8232 \<or> c = 8233 \<or> c = 8239 \<or> c = 8287 \<or>
     c = 12288"

text \<open>
  \<open>value.split()\<close>: skip whitespace, read a word up to the next whitespace, and so
  on; no empty word is produced. \<open>word\<close> holds the characters of the word being read.
\<close>

fun split_from :: "pystr \<Rightarrow> pystr \<Rightarrow> pystr list" where
  "split_from word [] = (if word = [] then [] else [word])"
| "split_from word (c # cs) =
     (if isspace c then (if word = [] then split_from [] cs else word # split_from [] cs)
      else split_from (word @ [c]) cs)"

definition split :: "pystr \<Rightarrow> pystr list" where
  "split s = split_from [] s"

text \<open>\<open>sep.join(xs)\<close>\<close>

fun join :: "pystr \<Rightarrow> pystr list \<Rightarrow> pystr" where
  "join sep [] = []"
| "join sep [x] = x"
| "join sep (x # y # ys) = x @ sep @ join sep (y # ys)"

text \<open>\<open>s.startswith(p)\<close>\<close>

definition startswith :: "pystr \<Rightarrow> pystr \<Rightarrow> bool" where
  "startswith s p \<longleftrightarrow> take (length p) s = p"

text \<open>\<open>s.replace(old, new, 1)\<close>: the leftmost occurrence of \<open>old\<close> is replaced.\<close>

fun replace_first :: "pystr \<Rightarrow> pystr \<Rightarrow> pystr \<Rightarrow> pystr" where
  "replace_first old new [] = (if old = [] then new else [])"
| "replace_first old new (c # cs) =
     (if startswith (c # cs) old then new @ drop (length old) (c # cs)
      else c # replace_first old new cs)"

text \<open>Truthiness of an optional string: \<open>None\<close> and \<open>""\<close> are falsy.\<close>

definition truthy :: "pystr option \<Rightarrow> bool" where
  "truthy v = (case v of None \<Rightarrow> False | Some s \<Rightarrow> s \<noteq> [])"

text \<open>\<open>d.get(key, default)\<close> for a key that is absent (\<open>None\<close>) or present.\<close>

definition get_or :: "'a option \<Rightarrow> 'a \<Rightarrow> 'a" where
  "get_or v dflt = (case v of None \<Rightarrow> dflt | Some x \<Rightarrow> x)"

section \<open>normalize_text\<close>

definition normalize_text :: "pystr option \<Rightarrow> pystr option" where
  "normalize_text v =
     (case v of
        None \<Rightarrow> None
      | Some s \<Rightarrow>
          (let cleaned = join (pystr '' '') (split s) in
           if cleaned \<noteq> [] then Some cleaned else None))"

section \<open>Dictionaries and records\<close>

text \<open>
  A Python \<open>dict\<close> keeps its keys in insertion order: an association list in which
  \<open>d[k] = v\<close> overwrites the value of a key already there, in place, and appends a new
  key at the end. A scraped record maps field names to a string or \<open>None\<close>.
\<close>

type_synonym ('k, 'v) dict = "('k \<times> 'v) list"

fun dict_set :: "('k, 'v) dict \<Rightarrow> 'k \<Rightarrow> 'v \<Rightarrow> ('k, 'v) dict" where
  "dict_set [] k v = [(k, v)]"
| "dict_set ((k', v') # d) k v =
     (if k' = k then (k, v) # d else (k', v') # dict_set d k v)"

definition keys :: "('k, 'v) dict \<Rightarrow> 'k list" where
  "keys d = map fst d"

type_synonym row = "(pystr, pystr option) dict"

text \<open>\<open>record.get(col)\<close>: \<open>None\<close> for a missing key.\<close>

definition dict_get :: "row \<Rightarrow> pystr \<Rightarrow> pystr option" where
  "dict_get d k = (case map_of d k of None \<Rightarrow> None | Some v \<Rightarrow> v)"

section \<open>ensure_columns\<close>

text \<open>The dict comprehension \<open>{col: record.get(col) for col in columns}\<close>.\<close>

fun project_from :: "row \<Rightarrow> pystr list \<Rightarrow> row \<Rightarrow> row" where
  "project_from record [] out = out"
| "project_from record (col # columns) out =
     project_from record columns (dict_set out col (dict_get record col))"

definition project_record :: "row \<Rightarrow> pystr list \<Rightarrow> row" where
  "project_record record columns = project_from record columns []"

fun ensure_columns_loop :: "row list \<Rightarrow> pystr list \<Rightarrow> row list \<Rightarrow> row list" where
  "ensure_columns_loop [] columns normalized = normalized"
| "ensure_columns_loop (record # records) columns normalized =
     ensure_columns_loop records columns (normalized @ [project_record record columns])"

definition ensure_columns :: "row list \<Rightarrow> pystr list \<Rightarrow> row list" where
  "ensure_columns records columns = ensure_columns_loop records columns []"

section \<open>Errors and effects\<close>

text \<open>
  The exceptions the program can end with: the \<open>ValueError\<close> it raises itself, the
  \<open>KeyError\<close> of a subscript on a missing key, and whatever the browser library or
  \<open>str.format\<close> raise, which the program never catches.
\<close>

datatype error = ValueError pystr | KeyError pystr | LibraryError pystr

text \<open>
  A call that may change the state of the browser and may raise: it returns the
  exception or the value, and the state it leaves behind in both cases.
\<close>

type_synonym ('a, 's) action = "'s \<Rightarrow> (error + 'a) \<times> 's"

definition returnS :: "'a \<Rightarrow> ('a, 's) action" where
  "returnS x s = (Inr x, s)"

definition raiseS :: "error \<Rightarrow> ('a, 's) action" where
  "raiseS e s = (Inl e, s)"

definition bindS :: "('a, 's) action \<Rightarrow> ('a \<Rightarrow> ('b, 's) action) \<Rightarrow> ('b, 's) action" where
  "bindS m f s = (case m s of (Inl e, s') \<Rightarrow> (Inl e, s') | (Inr x, s') \<Rightarrow> f x s')"

section \<open>The page driver\<close>

text \<open>
  What \<open>page.evaluate\<close> returns for the two expressions of the source: nothing for the
  scroll command, the document height for \<open>document.body.scrollHeight\<close>.
\<close>

datatype jsval = JSUndefined | JSNumber int

text \<open>
  The Playwright page and its element handles, as the functions the source calls on
  them. \<open>'s\<close> is the state of the browser, \<open>'h\<close> the type of element handles. Nothing
  is assumed about what a call returns or does to the state.
\<close>

record ('s, 'h) page =
  goto :: "pystr \<Rightarrow> pystr \<Rightarrow> (unit, 's) action"
  evaluate :: "pystr \<Rightarrow> (jsval, 's) action"
  wait_for_timeout :: "int \<Rightarrow> (unit, 's) action"
  query_selector :: "pystr \<Rightarrow> ('h option, 's) action"
  query_selector_all :: "pystr \<Rightarrow> ('h list, 's) action"
  element_query_selector :: "'h \<Rightarrow> pystr \<Rightarrow> ('h option, 's) action"
  element_inner_text :: "'h \<Rightarrow> (pystr, 's) action"
  element_get_attribute :: "'h \<Rightarrow> pystr \<Rightarrow> (pystr option, 's) action"
  element_click :: "'h \<Rightarrow> (unit, 's) action"

section \<open>Configuration\<close>

text \<open>
  The YAML configuration, one record per nested mapping. A field is \<open>None\<close> when its
  key is absent; a value has the type the program uses it at (a string, an integer, a
  list of strings). A field spec is a bare selector string or a mapping with the keys
  \<open>selector\<close> and \<open>attr\<close> (the two arguments of \<open>FieldDict\<close>, in this order). The key \<open>fields\<close> of the extraction mapping is the field
  \<open>field_configs\<close>.
\<close>

datatype field_config = Selector pystr | FieldDict "pystr option" "pystr option"

record extraction_config =
  item_selector :: "pystr option"
  field_configs :: "(pystr, field_config) dict option"

record scroll_config =
  max_scrolls :: "int option"
  scroll_pause_ms :: "int option"
  stop_after_unchanged :: "int option"

record pagination_config =
  max_pages :: "int option"
  next_button_selector :: "pystr option"
  url_template :: "pystr option"
  start_page :: "int option"
  pause_ms :: "int option"

record config =
  start_urls :: "pystr list option"
  mode :: "pystr option"
  scroll :: "scroll_config option"
  pagination :: "pagination_config option"
  extraction :: "extraction_config option"
  columns :: "pystr list option"
  between_urls_pause_s :: "int option"

definition DEFAULT_COLUMNS :: "pystr list" where
  "DEFAULT_COLUMNS =
     [pystr ''company_name'', pystr ''address'', pystr ''email'', pystr ''website'',
      pystr ''phone'', pystr ''country'', pystr ''field'']"

text \<open>The empty mapping \<open>{}\<close> that \<open>config.get("scroll", {})\<close> falls back to.\<close>

definition empty_scroll_config :: scroll_config where
  "empty_scroll_config =
     \<lparr>max_scrolls = None, scroll_pause_ms = None, stop_after_unchanged = None\<rparr>"

definition empty_pagination_config :: pagination_config where
  "empty_pagination_config =
     \<lparr>max_pages = None, next_button_selector = None, url_template = None,
      start_page = None, pause_ms = None\<rparr>"

section \<open>extract_value\<close>

fun extract_value :: "('s, 'h) page \<Rightarrow> 'h \<Rightarrow> field_config \<Rightarrow> (pystr option, 's) action" where
  "extract_value page element (Selector field_config) =
     bindS (element_query_selector page element field_config) (\<lambda>target.
       case target of
         None \<Rightarrow> returnS None
       | Some t \<Rightarrow>
           bindS (element_inner_text page t) (\<lambda>text. returnS (normalize_text (Some text))))"
| "extract_value page element (FieldDict selector attr) =
     (if \<not> truthy selector then returnS None
      else
        bindS (element_query_selector page element (the selector)) (\<lambda>target.
          case target of
            None \<Rightarrow> returnS None
          | Some t \<Rightarrow>
              if truthy attr then
                bindS (element_get_attribute page t (the attr)) (\<lambda>v.
                  returnS
                    (normalize_text
                      (if truthy v \<and> the attr = pystr ''href'' \<and> startswith (the v) (pystr ''mailto:'')
                       then Some (replace_first (pystr ''mailto:'') [] (the v))
                       else v)))
              else
                bindS (element_inner_text page t) (\<lambda>text.
                  returnS (normalize_text (Some text)))))"

section \<open>extract_items\<close>

text \<open>The inner loop over \<open>fields.items()\<close>, filling one record.\<close>

fun extract_record ::
  "('s, 'h) page \<Rightarrow> 'h \<Rightarrow> (pystr, field_config) dict \<Rightarrow> row \<Rightarrow> (row, 's) action" where
  "extract_record page element [] record = returnS record"
| "extract_record page element ((field_name, field_config) # rest) record =
     bindS (extract_value page element field_config) (\<lambda>v.
       extract_record page element rest (dict_set record field_name v))"

text \<open>The outer loop over the matched elements.\<close>

fun extract_items_loop ::
  "('s, 'h) page \<Rightarrow> (pystr, field_config) dict \<Rightarrow> 'h list \<Rightarrow> row list \<Rightarrow> (row list, 's) action"
  where
  "extract_items_loop page fs [] items = returnS items"
| "extract_items_loop page fs (element # elements) items =
     bindS (extract_record page element fs []) (\<lambda>record.
       extract_items_loop page fs elements (items @ [record]))"

definition extract_items :: "('s, 'h) page \<Rightarrow> config \<Rightarrow> (row list, 's) action" where
  "extract_items page cfg =
     (case extraction cfg of
        None \<Rightarrow> raiseS (KeyError (pystr ''extraction''))
      | Some ex \<Rightarrow>
          (case item_selector ex of
             None \<Rightarrow> raiseS (KeyError (pystr ''item_selector''))
           | Some sel \<Rightarrow>
               (case field_configs ex of
                  None \<Rightarrow> raiseS (KeyError (pystr ''fields''))
                | Some fs \<Rightarrow>
                    bindS (query_selector_all page sel) (\<lambda>elements.
                      extract_items_loop page fs elements []))))"

section \<open>scroll_page\<close>

definition JS_SCROLL_TO_BOTTOM :: pystr where
  "JS_SCROLL_TO_BOTTOM = pystr ''window.scrollTo(0, document.body.scrollHeight)''"

definition JS_SCROLL_HEIGHT :: pystr where
  "JS_SCROLL_HEIGHT = pystr ''document.body.scrollHeight''"

text \<open>
  The \<open>for _ in range(max_scrolls)\<close> loop; the first argument after the settings counts
  the iterations left. \<open>break\<close> ends the loop, as running out of iterations does.
\<close>

fun scroll_loop ::
  "('s, 'h) page \<Rightarrow> int \<Rightarrow> int \<Rightarrow> nat \<Rightarrow> int \<Rightarrow> jsval \<Rightarrow> (unit, 's) action" where
  "scroll_loop page pause stop 0 unchanged previous_height = returnS ()"
| "scroll_loop page pause stop (Suc n) unchanged previous_height =
     bindS (evaluate page JS_SCROLL_TO_BOTTOM) (\<lambda>_.
     bindS (wait_for_timeout page pause) (\<lambda>_.
     bindS (evaluate page JS_SCROLL_HEIGHT) (\<lambda>current_height.
       let unchanged' = (if current_height = previous_height then unchanged + 1 else 0) in
       if unchanged' \<ge> stop then returnS ()
       else scroll_loop page pause stop n unchanged' current_height)))"

definition scroll_page :: "('s, 'h) page \<Rightarrow> scroll_config \<Rightarrow> (unit, 's) action" where
  "scroll_page page sc =
     scroll_loop page (get_or (scroll_pause_ms sc) 1200) (get_or (stop_after_unchanged sc) 3)
       (nat (get_or (max_scrolls sc) 50)) 0 (JSNumber 0)"

section \<open>paginate\<close>

fun paginate_loop ::
  "('s, 'h) page \<Rightarrow> pagination_config \<Rightarrow> (row list, 's) action \<Rightarrow> nat \<Rightarrow> row list \<Rightarrow>
   (row list, 's) action" where
  "paginate_loop page pc extract_callback 0 results = returnS results"
| "paginate_loop page pc extract_callback (Suc n) results =
     bindS extract_callback (\<lambda>items.
       let results' = results @ items in
       if \<not> truthy (next_button_selector pc) then returnS results'
       else
         bindS (query_selector page (the (next_button_selector pc))) (\<lambda>next_button.
           case next_button of
             None \<Rightarrow> returnS results'
           | Some b \<Rightarrow>
               bindS (element_click page b) (\<lambda>_.
               bindS (wait_for_timeout page (get_or (pause_ms pc) 1500)) (\<lambda>_.
                 paginate_loop page pc extract_callback n results'))))"

definition paginate ::
  "('s, 'h) page \<Rightarrow> pagination_config \<Rightarrow> (row list, 's) action \<Rightarrow> (row list, 's) action" where
  "paginate page pc extract_callback =
     paginate_loop page pc extract_callback (nat (get_or (max_pages pc) 50)) []"

section \<open>paginate_by_url\<close>

text \<open>
  \<open>url_template.format(page=page_number)\<close> is Python's format mini-language; it is
  the parameter \<open>format\<close>, which may raise. The loop runs over
  \<open>range(start_page, start_page + max_pages)\<close>.
\<close>

fun paginate_by_url_loop ::
  "('s, 'h) page \<Rightarrow> (pystr \<Rightarrow> int \<Rightarrow> error + pystr) \<Rightarrow> pystr \<Rightarrow> int \<Rightarrow>
   (row list, 's) action \<Rightarrow> int \<Rightarrow> nat \<Rightarrow> row list \<Rightarrow> (row list, 's) action" where
  "paginate_by_url_loop page format template pause extract_callback page_number 0 results =
     returnS results"
| "paginate_by_url_loop page format template pause extract_callback page_number (Suc n) results =
     (case format template page_number of
        Inl e \<Rightarrow> raiseS e
      | Inr url \<Rightarrow>
          bindS (goto page url (pystr ''networkidle'')) (\<lambda>_.
          bindS extract_callback (\<lambda>items.
          bindS (wait_for_timeout page pause) (\<lambda>_.
            paginate_by_url_loop page format template pause extract_callback
              (page_number + 1) n (results @ items)))))"

definition paginate_by_url ::
  "('s, 'h) page \<Rightarrow> (pystr \<Rightarrow> int \<Rightarrow> error + pystr) \<Rightarrow> pagination_config \<Rightarrow>
   (row list, 's) action \<Rightarrow> (row list, 's) action" where
  "paginate_by_url page format pc extract_callback =
     (if \<not> truthy (url_template pc) then returnS []
      else
        paginate_by_url_loop page format (the (url_template pc)) (get_or (pause_ms pc) 1500)
          extract_callback (get_or (start_page pc) 1) (nat (get_or (max_pages pc) 50)) [])"

section \<open>main\<close>

text \<open>
  The run from the loaded configuration to the rows handed to the spreadsheet writer:
  the loop over \<open>start_urls\<close> and the final \<open>ensure_columns\<close>. Reading the YAML file,
  creating the output directory, launching and closing the browser and writing the file
  are left out. \<open>sleep\<close> is \<open>time.sleep\<close>.
\<close>

fun main_loop ::
  "('s, 'h) page \<Rightarrow> (int \<Rightarrow> (unit, 's) action) \<Rightarrow> (pystr \<Rightarrow> int \<Rightarrow> error + pystr) \<Rightarrow>
   config \<Rightarrow> pystr list \<Rightarrow> row list \<Rightarrow> (row list, 's) action" where
  "main_loop page sleep format cfg [] all_records = returnS all_records"
| "main_loop page sleep format cfg (url # urls) all_records =
     bindS (goto page url (pystr ''networkidle'')) (\<lambda>_.
       let m = get_or (mode cfg) (pystr ''infinite_scroll'') in
       bindS
         (if m = pystr ''infinite_scroll'' then
            bindS (scroll_page page (get_or (scroll cfg) empty_scroll_config)) (\<lambda>_.
              extract_items page cfg)
          else if m = pystr ''pagination'' then
            (let pc = get_or (pagination cfg) empty_pagination_config in
             if truthy (url_template pc)
             then paginate_by_url page format pc (extract_items page cfg)
             else paginate page pc (extract_items page cfg))
          else raiseS (ValueError (pystr ''Unknown mode: '' @ m)))
         (\<lambda>records.
           bindS (sleep (get_or (between_urls_pause_s cfg) 1)) (\<lambda>_.
             main_loop page sleep format cfg urls (all_records @ records))))"

definition main ::
  "('s, 'h) page \<Rightarrow> (int \<Rightarrow> (unit, 's) action) \<Rightarrow> (pystr \<Rightarrow> int \<Rightarrow> error + pystr) \<Rightarrow>
   config \<Rightarrow> (row list, 's) action" where
  "main page sleep format cfg =
     bindS (main_loop page sleep format cfg (get_or (start_urls cfg) []) []) (\<lambda>all_records.
       returnS (ensure_columns all_records (get_or (columns cfg) DEFAULT_COLUMNS)))"

section \<open>Normalization as the specification words it\<close>

text \<open>
  The specification describes normalization as two steps: every run of whitespace
  becomes one ASCII space (U+0020), then leading and trailing whitespace is removed.
  These definitions follow that wording and are compared with \<open>normalize_text\<close> below.
\<close>

function collapse_runs :: "pystr \<Rightarrow> pystr" where
  "collapse_runs [] = []"
| "collapse_runs (c # cs) =
     (if isspace c then 32 # collapse_runs (dropWhile isspace cs) else c # collapse_runs cs)"
  by pat_completeness auto
termination
  by (relation "measure length") (auto simp: le_imp_less_Suc length_dropWhile_le)

definition rstrip :: "pystr \<Rightarrow> pystr" where
  "rstrip s = rev (dropWhile isspace (rev s))"

definition trim :: "pystr \<Rightarrow> pystr" where
  "trim s = rstrip (dropWhile isspace s)"

definition spec_normalize :: "pystr option \<Rightarrow> pystr option" where
  "spec_normalize v =
     (case v of
        None \<Rightarrow> None
      | Some s \<Rightarrow> (let r = trim (collapse_runs s) in if r = [] then None else Some r))"

section \<open>A scripted page\<close>

text \<open>
  A page driver for running the program on concrete inputs. Its state is the list of
  document heights it will report next and the log of the calls made so far; every call
  is appended to the log. The document has two items matching \<open>li\<close> (handles 0 and 1):
  item 0 holds \<open><h1>  Acme Corp </h1>\<close> (handle 10) and
  \<open><a class="mail" href="mailto:info@acme.com">\<close> (handle 11), item 1 is empty. There is
  no next button. Reading the height with no reading left raises.
\<close>

datatype event =
    Goto pystr
  | Evaluate pystr
  | WaitForTimeout int
  | QuerySelector pystr
  | QuerySelectorAll pystr
  | ElementQuerySelector nat pystr
  | InnerText nat
  | GetAttribute nat pystr
  | Click nat
  | Sleep int
  | Extract

record world =
  heights :: "int list"
  calls :: "event list"

definition logged :: "event \<Rightarrow> 'a \<Rightarrow> ('a, world) action" where
  "logged e x w = (Inr x, w\<lparr>calls := calls w @ [e]\<rparr>)"

definition scripted_evaluate :: "pystr \<Rightarrow> (jsval, world) action" where
  "scripted_evaluate expr w =
     (if expr = JS_SCROLL_HEIGHT then
        (case heights w of
           [] \<Rightarrow> (Inl (LibraryError (pystr ''no height left'')), w\<lparr>calls := calls w @ [Evaluate expr]\<rparr>)
         | h # hs \<Rightarrow> (Inr (JSNumber h), w\<lparr>heights := hs, calls := calls w @ [Evaluate expr]\<rparr>))
      else logged (Evaluate expr) JSUndefined w)"

definition scripted_page :: "(world, nat) page" where
  "scripted_page =
     \<lparr>goto = (\<lambda>url wait_until. logged (Goto url) ()),
      evaluate = scripted_evaluate,
      wait_for_timeout = (\<lambda>ms. logged (WaitForTimeout ms) ()),
      query_selector = (\<lambda>sel. logged (QuerySelector sel) None),
      query_selector_all =
        (\<lambda>sel. logged (QuerySelectorAll sel) (if sel = pystr ''li'' then [0, 1] else [])),
      element_query_selector =
        (\<lambda>h sel. logged (ElementQuerySelector h sel)
           (if h = 0 \<and> sel = pystr ''h1'' then Some 10
            else if h = 0 \<and> sel = pystr ''a.mail'' then Some 11
            else None)),
      element_inner_text =
        (\<lambda>h. logged (InnerText h) (if h = 10 then pystr ''  Acme Corp '' else [])),
      element_get_attribute =
        (\<lambda>h name. logged (GetAttribute h name)
           (if h = 11 \<and> name = pystr ''href'' then Some (pystr ''mailto:info@acme.com'')
            else None)),
      element_click = (\<lambda>h. logged (Click h) ())\<rparr>"

definition scripted_sleep :: "int \<Rightarrow> (unit, world) action" where
  "scripted_sleep seconds = logged (Sleep seconds) ()"

text \<open>A template without a placeholder: every page number gives the template itself.\<close>

definition constant_format :: "pystr \<Rightarrow> int \<Rightarrow> error + pystr" where
  "constant_format template page_number = Inr template"

text \<open>An extraction callback that logs its invocation and returns the given rows.\<close>

definition logged_callback :: "row list \<Rightarrow> (row list, world) action" where
  "logged_callback rows = logged Extract rows"

text \<open>
  The element reads of a page never raise: the condition under which an extraction goes
  through.
\<close>

definition reads_succeed :: "('s, 'h) page \<Rightarrow> bool" where
  "reads_succeed page \<longleftrightarrow>
     (\<forall>h sel s. \<exists>r s'. element_query_selector page h sel s = (Inr r, s')) \<and>
     (\<forall>h s. \<exists>r s'. element_inner_text page h s = (Inr r, s')) \<and>
     (\<forall>h name s. \<exists>r s'. element_get_attribute page h name s = (Inr r, s'))"

section \<open>The readings of a scroll, and the run of unchanged readings\<close>

text \<open>
  One measurement is what one iteration of the loop of \<open>scroll_page\<close> asks of the page:
  scroll to the bottom, wait, read the document height.
\<close>

definition measurement :: "('s, 'h) page \<Rightarrow> int \<Rightarrow> (jsval, 's) action" where
  "measurement page pause =
     bindS (evaluate page JS_SCROLL_TO_BOTTOM) (\<lambda>_.
     bindS (wait_for_timeout page pause) (\<lambda>_.
       evaluate page JS_SCROLL_HEIGHT))"

text \<open>
  \<open>measurements page pause s hs = Some s'\<close>: from the state \<open>s\<close>, the next measurements
  of the page return the readings \<open>hs\<close>, one after the other, none raises, and the last
  leaves the state \<open>s'\<close>.
\<close>

fun measurements :: "('s, 'h) page \<Rightarrow> int \<Rightarrow> 's \<Rightarrow> jsval list \<Rightarrow> 's option" where
  "measurements page pause s [] = Some s"
| "measurements page pause s (h # hs) =
     (case measurement page pause s of
        (Inr v, s1) \<Rightarrow> if v = h then measurements page pause s1 hs else None
      | (Inl e, s1) \<Rightarrow> None)"

text \<open>
  The number of most recent readings that each equal the reading before them, the
  reading before the first one being \<open>first\<close>: the readings are paired with their
  predecessors, and the pairs are counted from the newest back to the first one that
  differs.
\<close>

definition unchanged_run :: "jsval \<Rightarrow> jsval list \<Rightarrow> nat" where
  "unchanged_run first hs =
     length (takeWhile (\<lambda>(before, reading). reading = before) (rev (zip (first # hs) hs)))"

text \<open>
  The same count when \<open>c\<close> unchanged readings had already been counted before \<open>hs\<close>: they
  are added when no reading of \<open>hs\<close> differs from its predecessor.
\<close>

definition counter_after :: "int \<Rightarrow> jsval \<Rightarrow> jsval list \<Rightarrow> int" where
  "counter_after c first hs =
     (if list_all (\<lambda>(before, reading). reading = before) (zip (first # hs) hs)
      then c + int (length hs) else int (unchanged_run first hs))"

section \<open>Strings: lemmas\<close>

lemma isspace_32 [simp]: "isspace 32"
  by (simp add: isspace_def)

lemma pystr_space [simp]: "pystr '' '' = [32]"
  by (simp add: pystr_def)

lemma split_from_word:
  "split_from w s =
     (if w @ takeWhile (\<lambda>c. \<not> isspace c) s = [] then []
      else [w @ takeWhile (\<lambda>c. \<not> isspace c) s])
     @ split_from [] (dropWhile (\<lambda>c. \<not> isspace c) s)"
  by (induction s arbitrary: w) auto

lemma split_Nil [simp]: "split [] = []"
  by (simp add: split_def)

lemma split_space [simp]: "isspace c \<Longrightarrow> split (c # cs) = split cs"
  by (simp add: split_def)

lemma split_dropWhile_space [simp]: "split (dropWhile isspace s) = split s"
  by (induction s) auto

lemma split_word:
  "\<not> isspace c \<Longrightarrow>
     split (c # cs) =
       (c # takeWhile (\<lambda>c. \<not> isspace c) cs) # split (dropWhile (\<lambda>c. \<not> isspace c) cs)"
  unfolding split_def by (subst split_from_word) simp

lemma split_empty_iff: "split s = [] \<longleftrightarrow> (\<forall>c\<in>set s. isspace c)"
proof (induction s)
  case Nil
  show ?case by simp
next
  case (Cons c cs)
  show ?case
  proof (cases "isspace c")
    case True
    with Cons show ?thesis by simp
  next
    case False
    then show ?thesis by (auto simp: split_word)
  qed
qed

lemma split_from_words_nonempty: "\<forall>x\<in>set (split_from w s). x \<noteq> []"
  by (induction s arbitrary: w) auto

lemma split_words_nonempty: "\<forall>x\<in>set (split s). x \<noteq> []"
  unfolding split_def by (rule split_from_words_nonempty)

lemma rstrip_Nil [simp]: "rstrip [] = []"
  by (simp add: rstrip_def)

lemma rstrip_append_nonempty: "rstrip b \<noteq> [] \<Longrightarrow> rstrip (a @ b) = a @ rstrip b"
  by (auto simp: rstrip_def dropWhile_append)

lemma rstrip_snoc_space: "isspace c \<Longrightarrow> rstrip (a @ [c]) = rstrip a"
  by (simp add: rstrip_def)

lemma rstrip_last_nonspace: "s \<noteq> [] \<Longrightarrow> \<not> isspace (last s) \<Longrightarrow> rstrip s = s"
  by (cases s rule: rev_cases) (auto simp: rstrip_def)

lemma collapse_word: "\<forall>c\<in>set w. \<not> isspace c \<Longrightarrow> collapse_runs (w @ s) = w @ collapse_runs s"
  by (induction w) auto

lemma join_Cons: "join sep (x # xs) = (if xs = [] then x else x @ sep @ join sep xs)"
  by (cases xs) auto

lemma join_nonempty: "xs \<noteq> [] \<Longrightarrow> (\<forall>x\<in>set xs. x \<noteq> []) \<Longrightarrow> join sep xs \<noteq> []"
  by (cases xs) (auto simp: join_Cons)

lemma dropWhile_nonspace_cases:
  obtains "dropWhile (\<lambda>c. \<not> isspace c) cs = []"
  | d ds where "dropWhile (\<lambda>c. \<not> isspace c) cs = d # ds" "isspace d"
proof (cases "dropWhile (\<lambda>c. \<not> isspace c) cs")
  case Nil
  then show ?thesis using that by blast
next
  case (Cons d ds)
  then have "isspace d" using hd_dropWhile [of "\<lambda>c. \<not> isspace c" cs] by simp
  with Cons show ?thesis using that by blast
qed

lemma lstripped_cases:
  obtains "dropWhile isspace cs = []"
  | d ds where "dropWhile isspace cs = d # ds" "\<not> isspace d"
proof (cases "dropWhile isspace cs")
  case Nil
  then show ?thesis using that by blast
next
  case (Cons d ds)
  then have "\<not> isspace d" using hd_dropWhile [of isspace cs] by simp
  with Cons show ?thesis using that by blast
qed

text \<open>
  Joining the words with one space is collapsing the runs and stripping the right end,
  once the leading whitespace is gone. Induction on the length: a word is split off, the
  run after it is skipped, and the hypothesis applies to what follows.
\<close>

lemma join_split_rstrip: "join [32] (split s) = rstrip (collapse_runs (dropWhile isspace s))"
proof (induction s rule: length_induct)
  case (1 s)
  show ?case
  proof (cases s)
    case Nil
    then show ?thesis by simp
  next
    case (Cons c cs)
    show ?thesis
    proof (cases "isspace c")
      case True
      have "join [32] (split cs) = rstrip (collapse_runs (dropWhile isspace cs))"
        using 1 [rule_format, of cs] Cons by simp
      with True Cons show ?thesis by simp
    next
      case False
      define w where "w = c # takeWhile (\<lambda>c. \<not> isspace c) cs"
      define r where "r = dropWhile (\<lambda>c. \<not> isspace c) cs"
      have s: "s = w @ r" using Cons by (simp add: w_def r_def)
      have w: "\<forall>x\<in>set w. \<not> isspace x"
        using False by (auto simp: w_def dest: set_takeWhileD)
      have wne: "w \<noteq> []" by (simp add: w_def)
      have sp: "split s = w # split r"
        using Cons False by (simp add: split_word w_def r_def)
      have col: "collapse_runs s = w @ collapse_runs r"
        unfolding s by (rule collapse_word [OF w])
      have lw: "\<not> isspace (last w)" using w wne last_in_set by blast
      have len: "length r < length s"
        using Cons by (simp add: r_def le_imp_less_Suc length_dropWhile_le)
      have lhs0: "dropWhile isspace s = s" using Cons False by simp
      show ?thesis
      proof (cases rule: dropWhile_nonspace_cases [of cs])
        case 1
        then have r: "r = []" by (simp only: r_def)
        have "rstrip w = w" using wne lw by (rule rstrip_last_nonspace)
        then show ?thesis unfolding lhs0 col sp r by simp
      next
        case (2 d ds)
        then have r: "r = d # ds" by (simp only: r_def)
        define t where "t = dropWhile isspace ds"
        have spr: "split r = split t" unfolding r t_def using 2(2) by simp
        have colr: "collapse_runs r = 32 # collapse_runs t"
          unfolding r t_def using 2(2) by simp
        have "length t < length s"
          using len length_dropWhile_le [of isspace ds] unfolding r t_def by simp
        then have "join [32] (split t) = rstrip (collapse_runs (dropWhile isspace t))"
          using "1.IH" by blast
        then have ih: "join [32] (split t) = rstrip (collapse_runs t)"
          by (simp add: t_def)
        show ?thesis
        proof (cases "split t = []")
          case True
          then have "\<forall>c\<in>set t. isspace c" by (simp add: split_empty_iff)
          then have "dropWhile isspace t = []" by simp
          then have "t = []" by (simp add: t_def)
          then have "collapse_runs s = w @ [32]" unfolding col colr by simp
          moreover have "rstrip (w @ [32]) = w"
            using wne lw by (simp add: rstrip_snoc_space rstrip_last_nonspace)
          ultimately show ?thesis unfolding lhs0 sp spr True by simp
        next
          case False
          then have ne: "rstrip (collapse_runs t) \<noteq> []"
            using split_words_nonempty [of t] join_nonempty [of "split t" "[32]"] ih by simp
          have "rstrip ((w @ [32]) @ collapse_runs t) = (w @ [32]) @ rstrip (collapse_runs t)"
            using ne by (rule rstrip_append_nonempty)
          then have "rstrip (collapse_runs s) = w @ [32] @ join [32] (split t)"
            unfolding col colr ih by simp
          then show ?thesis unfolding lhs0 sp spr using False by (simp add: join_Cons)
        qed
      qed
    qed
  qed
qed

lemma collapse_lstripped:
  "s = [] \<or> \<not> isspace (hd s) \<Longrightarrow> dropWhile isspace (collapse_runs s) = collapse_runs s"
  by (cases s) auto

lemma collapse_dropWhile:
  "dropWhile isspace (collapse_runs s) = collapse_runs (dropWhile isspace s)"
proof (cases s)
  case Nil
  then show ?thesis by simp
next
  case (Cons c cs)
  show ?thesis
  proof (cases "isspace c")
    case False
    with Cons show ?thesis by simp
  next
    case True
    have "dropWhile isspace cs = [] \<or> \<not> isspace (hd (dropWhile isspace cs))"
      by (cases rule: lstripped_cases [of cs]) simp_all
    then have "dropWhile isspace (collapse_runs (dropWhile isspace cs))
                 = collapse_runs (dropWhile isspace cs)"
      by (rule collapse_lstripped)
    then show ?thesis using Cons True by simp
  qed
qed

lemma join_split_trim: "join [32] (split s) = trim (collapse_runs s)"
  by (simp add: join_split_rstrip trim_def collapse_dropWhile)

lemma normalize_text_blank: "(\<forall>c\<in>set s. isspace c) \<Longrightarrow> normalize_text (Some s) = None"
  using split_empty_iff [of s] by (simp add: normalize_text_def)

section \<open>normalize_text: whitespace is collapsed and trimmed\<close>

text \<open>
  Claim C5. For every input, \<open>normalize_text\<close> returns what the specification's wording
  gives: every run of whitespace (newlines and tabs included) collapsed to one ASCII
  space, leading and trailing whitespace removed, and \<open>None\<close> in place of an empty
  result; \<open>None\<close> goes to \<open>None\<close>; and the string of two spaces, \<open>a\<close>, newline, tab,
  space, \<open>b\<close>, two spaces goes to \<open>a b\<close>.
\<close>

theorem normalize_text_collapses_whitespace:
  "normalize_text v = spec_normalize v
   \<and> normalize_text None = None
   \<and> normalize_text (Some [32, 32, 97, 10, 9, 32, 98, 32, 32]) = Some (pystr ''a b'')"
proof -
  have "normalize_text v = spec_normalize v"
    by (cases v) (simp_all add: normalize_text_def spec_normalize_def join_split_trim Let_def)
  moreover have "normalize_text None = None"
    by (simp add: normalize_text_def)
  moreover have "normalize_text (Some [32, 32, 97, 10, 9, 32, 98, 32, 32]) = Some (pystr ''a b'')"
    by (simp add: normalize_text_def split_def isspace_def pystr_def)
  ultimately show ?thesis by simp
qed

text \<open>
  On a string with a no-break space, an em space and an ideographic space around two
  letters, and on a string of whitespace only.
\<close>

theorem normalize_text_collapses_whitespace_witness:
  "normalize_text (Some [160, 72, 8195, 10, 105, 12288]) = Some [72, 32, 105]
   \<and> spec_normalize (Some [160, 72, 8195, 10, 105, 12288]) = Some [72, 32, 105]
   \<and> normalize_text (Some [9, 32, 10]) = None
   \<and> spec_normalize (Some [9, 32, 10]) = None"
proof -
  have a: "normalize_text (Some [160, 72, 8195, 10, 105, 12288]) = Some [72, 32, 105]"
    by (simp add: normalize_text_def split_def isspace_def)
  have b: "normalize_text (Some [9, 32, 10]) = None"
    by (simp add: normalize_text_def split_def isspace_def)
  show ?thesis
    using a b normalize_text_collapses_whitespace [of "Some [160, 72, 8195, 10, 105, 12288]"]
      normalize_text_collapses_whitespace [of "Some [9, 32, 10]"]
    by simp
qed

section \<open>Dictionaries and ensure_columns: lemmas\<close>

lemma keys_Nil: "keys [] = []"
  by (simp add: keys_def)

lemma keys_dict_set:
  "keys (dict_set d k v) = (if k \<in> set (keys d) then keys d else keys d @ [k])"
  by (induction d k v rule: dict_set.induct) (auto simp: keys_def)

lemma map_of_dict_set: "map_of (dict_set d k v) = (map_of d)(k \<mapsto> v)"
  by (induction d k v rule: dict_set.induct) (auto simp: fun_eq_iff)

lemma remdups_snoc: "remdups (ys @ [x]) = remdups (filter (\<lambda>y. y \<noteq> x) ys) @ [x]"
  by (induction ys) auto

text \<open>
  \<open>rev (remdups (rev xs))\<close> is \<open>xs\<close> with every element kept at its first occurrence only
  (\<open>remdups\<close> itself keeps the last one).
\<close>

lemma first_occ_Cons:
  "rev (remdups (rev (x # xs))) = x # rev (remdups (rev (filter (\<lambda>y. y \<noteq> x) xs)))"
  by (simp add: remdups_snoc rev_filter)

lemma first_occ_distinct: "distinct xs \<Longrightarrow> rev (remdups (rev xs)) = xs"
  by (simp add: distinct_remdups_id)

lemma keys_project_from:
  "keys (project_from r cols out) =
     keys out @ rev (remdups (rev (filter (\<lambda>c. c \<notin> set (keys out)) cols)))"
proof (induction cols arbitrary: out)
  case Nil
  then show ?case by simp
next
  case (Cons c cs)
  show ?case
  proof (cases "c \<in> set (keys out)")
    case True
    then show ?thesis using Cons [of "dict_set out c (dict_get r c)"]
      by (simp add: keys_dict_set)
  next
    case False
    have "(\<lambda>x. x \<notin> set (keys out) \<and> x \<noteq> c) = (\<lambda>x. x \<noteq> c \<and> x \<notin> set (keys out))"
      by auto
    then show ?thesis using False Cons [of "dict_set out c (dict_get r c)"]
      by (simp add: keys_dict_set first_occ_Cons del: rev.simps remdups.simps)
  qed
qed

lemma keys_project_record: "keys (project_record r cols) = rev (remdups (rev cols))"
  by (simp add: project_record_def keys_project_from keys_Nil)

lemma map_of_project_from:
  "map_of (project_from r cols out) k =
     (if k \<in> set cols then Some (dict_get r k) else map_of out k)"
  by (induction cols arbitrary: out) (auto simp: map_of_dict_set)

lemma map_of_project_record:
  "map_of (project_record r cols) k = (if k \<in> set cols then Some (dict_get r k) else None)"
  by (simp add: project_record_def map_of_project_from)

lemma project_from_cong:
  "(\<And>c. c \<in> set cols \<Longrightarrow> dict_get r c = dict_get r' c) \<Longrightarrow>
     project_from r cols out = project_from r' cols out"
  by (induction cols arbitrary: out) auto

lemma project_record_idem:
  "project_record (project_record r cols) cols = project_record r cols"
  unfolding project_record_def [of "project_from r cols []"] project_record_def [of r]
  by (rule project_from_cong) (simp add: dict_get_def map_of_project_from)

lemma ensure_columns_loop_map:
  "ensure_columns_loop rs cols acc = acc @ map (\<lambda>r. project_record r cols) rs"
  by (induction rs arbitrary: acc) auto

lemma ensure_columns_map: "ensure_columns rs cols = map (\<lambda>r. project_record r cols) rs"
  by (simp add: ensure_columns_def ensure_columns_loop_map)

lemma dict_get_missing: "c \<notin> set (keys r) \<Longrightarrow> dict_get r c = None"
  by (simp add: dict_get_def keys_def map_of_eq_None_iff [THEN iffD2])

section \<open>ensure_columns: the projection onto the columns\<close>

text \<open>
  Claim C8. Every projected record has exactly the columns as its keys, in the order of
  the column list (a column listed twice is one key, at the place of its first
  occurrence; for a list without repetition the keys are the list itself); each column
  holds what \<open>record.get\<close> gives on the source record, which is \<open>None\<close> for a column the
  source record lacks; and no key outside the column list remains.
\<close>

theorem ensure_columns_projects:
  assumes "i < length records"
  shows "keys (ensure_columns records cols ! i) = rev (remdups (rev cols))
       \<and> (distinct cols \<longrightarrow> keys (ensure_columns records cols ! i) = cols)
       \<and> set (keys (ensure_columns records cols ! i)) = set cols
       \<and> (\<forall>c \<in> set cols. map_of (ensure_columns records cols ! i) c = Some (dict_get (records ! i) c))
       \<and> (\<forall>c \<in> set cols. c \<notin> set (keys (records ! i)) \<longrightarrow>
             map_of (ensure_columns records cols ! i) c = Some None)
       \<and> (\<forall>k. k \<notin> set cols \<longrightarrow> k \<notin> set (keys (ensure_columns records cols ! i)))"
  using assms
  by (simp add: ensure_columns_map keys_project_record map_of_project_record dict_get_missing
      first_occ_distinct)

text \<open>
  One source record with the fields \<open>name\<close>, \<open>fax\<close> and \<open>email\<close>, projected onto the
  columns \<open>name\<close>, \<open>email\<close>, \<open>phone\<close>.
\<close>

theorem ensure_columns_projects_witness:
  "(0::nat) <
     length [[(pystr ''name'', Some (pystr ''Acme Corp'')),
              (pystr ''fax'', Some (pystr ''1'')),
              (pystr ''email'', Some (pystr ''info@acme.com''))]]
   \<and> distinct [pystr ''name'', pystr ''email'', pystr ''phone'']
   \<and> pystr ''phone'' \<in> set [pystr ''name'', pystr ''email'', pystr ''phone'']
   \<and> pystr ''phone'' \<notin> set (keys [(pystr ''name'', Some (pystr ''Acme Corp'')),
              (pystr ''fax'', Some (pystr ''1'')),
              (pystr ''email'', Some (pystr ''info@acme.com''))])
   \<and> pystr ''fax'' \<notin> set [pystr ''name'', pystr ''email'', pystr ''phone'']
   \<and> ensure_columns
        [[(pystr ''name'', Some (pystr ''Acme Corp'')),
          (pystr ''fax'', Some (pystr ''1'')),
          (pystr ''email'', Some (pystr ''info@acme.com''))]]
        [pystr ''name'', pystr ''email'', pystr ''phone'']
      = [[(pystr ''name'', Some (pystr ''Acme Corp'')),
          (pystr ''email'', Some (pystr ''info@acme.com'')),
          (pystr ''phone'', None)]]
   \<and> keys (ensure_columns
        [[(pystr ''name'', Some (pystr ''Acme Corp'')),
          (pystr ''fax'', Some (pystr ''1'')),
          (pystr ''email'', Some (pystr ''info@acme.com''))]]
        [pystr ''name'', pystr ''email'', pystr ''phone''] ! 0)
      = [pystr ''name'', pystr ''email'', pystr ''phone'']
   \<and> map_of (ensure_columns
        [[(pystr ''name'', Some (pystr ''Acme Corp'')),
          (pystr ''fax'', Some (pystr ''1'')),
          (pystr ''email'', Some (pystr ''info@acme.com''))]]
        [pystr ''name'', pystr ''email'', pystr ''phone''] ! 0) (pystr ''phone'') = Some None
   \<and> pystr ''fax'' \<notin> set (keys (ensure_columns
        [[(pystr ''name'', Some (pystr ''Acme Corp'')),
          (pystr ''fax'', Some (pystr ''1'')),
          (pystr ''email'', Some (pystr ''info@acme.com''))]]
        [pystr ''name'', pystr ''email'', pystr ''phone''] ! 0))"
proof -
  have len: "(0::nat) <
     length [[(pystr ''name'', Some (pystr ''Acme Corp'')),
              (pystr ''fax'', Some (pystr ''1'')),
              (pystr ''email'', Some (pystr ''info@acme.com''))]]"
    by simp
  have run: "ensure_columns
        [[(pystr ''name'', Some (pystr ''Acme Corp'')),
          (pystr ''fax'', Some (pystr ''1'')),
          (pystr ''email'', Some (pystr ''info@acme.com''))]]
        [pystr ''name'', pystr ''email'', pystr ''phone'']
      = [[(pystr ''name'', Some (pystr ''Acme Corp'')),
          (pystr ''email'', Some (pystr ''info@acme.com'')),
          (pystr ''phone'', None)]]"
    by (simp add: ensure_columns_def project_record_def dict_get_def pystr_def)
  show ?thesis
    using ensure_columns_projects [OF len, of "[pystr ''name'', pystr ''email'', pystr ''phone'']"]
    unfolding run by (simp add: pystr_def keys_def)
qed

text \<open>
  Claim C9. Projecting the output of the projection again, onto the same columns,
  changes nothing.
\<close>

theorem ensure_columns_idempotent:
  "ensure_columns (ensure_columns r c) c = ensure_columns r c"
  by (simp add: ensure_columns_map project_record_idem)

text \<open>With a column listed twice and a source field that is dropped.\<close>

theorem ensure_columns_idempotent_witness:
  "ensure_columns
     (ensure_columns [[(pystr ''b'', Some (pystr ''x'')), (pystr ''c'', None)]]
        [pystr ''a'', pystr ''b'', pystr ''a''])
     [pystr ''a'', pystr ''b'', pystr ''a'']
   = [[(pystr ''a'', None), (pystr ''b'', Some (pystr ''x''))]]"
proof -
  have "ensure_columns [[(pystr ''b'', Some (pystr ''x'')), (pystr ''c'', None)]]
          [pystr ''a'', pystr ''b'', pystr ''a'']
        = [[(pystr ''a'', None), (pystr ''b'', Some (pystr ''x''))]]"
    by (simp add: ensure_columns_def project_record_def dict_get_def pystr_def)
  then show ?thesis
    using ensure_columns_idempotent
      [of "[[(pystr ''b'', Some (pystr ''x'')), (pystr ''c'', None)]]"
          "[pystr ''a'', pystr ''b'', pystr ''a'']"]
    by simp
qed

text \<open>
  Claim C10. The output has as many records as the input, and its i-th record is the
  projection of the i-th input record.
\<close>

theorem ensure_columns_preserves_order:
  "length (ensure_columns records cols) = length records
   \<and> (\<forall>i < length records. ensure_columns records cols ! i = project_record (records ! i) cols)"
  by (simp add: ensure_columns_map)

text \<open>Three records, the second one empty.\<close>

theorem ensure_columns_preserves_order_witness:
  "length (ensure_columns [[(pystr ''a'', Some (pystr ''1''))], [], [(pystr ''a'', Some (pystr ''2''))]]
      [pystr ''a'']) = 3
   \<and> (1::nat) < length [[(pystr ''a'', Some (pystr ''1''))], [], [(pystr ''a'', Some (pystr ''2''))]]
   \<and> ensure_columns [[(pystr ''a'', Some (pystr ''1''))], [], [(pystr ''a'', Some (pystr ''2''))]]
      [pystr ''a''] ! 1 = [(pystr ''a'', None)]
   \<and> ensure_columns [[(pystr ''a'', Some (pystr ''1''))], [], [(pystr ''a'', Some (pystr ''2''))]]
      [pystr ''a''] ! 2 = [(pystr ''a'', Some (pystr ''2''))]"
  using ensure_columns_preserves_order
    [of "[[(pystr ''a'', Some (pystr ''1''))], [], [(pystr ''a'', Some (pystr ''2''))]]" "[pystr ''a'']"]
  by (simp add: project_record_def dict_get_def)

section \<open>Actions and small facts\<close>

lemma bindS_returnS [simp]: "bindS (returnS x) f = f x"
  by (simp add: bindS_def returnS_def fun_eq_iff)

lemma bindS_raiseS [simp]: "bindS (raiseS e) f = raiseS e"
  by (simp add: bindS_def raiseS_def fun_eq_iff)

lemma bindS_returnS_right: "bindS m (\<lambda>x. returnS x) = m"
  by (auto simp: bindS_def returnS_def fun_eq_iff split: prod.splits sum.splits)

lemma bindS_Inr_iff:
  "bindS m f s = (Inr y, s') \<longleftrightarrow> (\<exists>x s1. m s = (Inr x, s1) \<and> f x s1 = (Inr y, s'))"
  by (auto simp: bindS_def split: prod.splits sum.splits)

lemma get_or_Some [simp]: "get_or (Some x) d = x"
  by (simp add: get_or_def)

lemma get_or_None [simp]: "get_or None d = d"
  by (simp add: get_or_def)

lemma replace_first_prefix:
  "startswith v old \<Longrightarrow> replace_first old new v = new @ drop (length old) v"
  by (cases v) (auto simp: startswith_def)

lemma length_mailto: "length (pystr ''mailto:'') = 7"
  by (simp add: pystr_def)

lemma mailto_strip:
  "startswith v (pystr ''mailto:'') \<Longrightarrow> replace_first (pystr ''mailto:'') [] v = drop 7 v"
  by (simp add: replace_first_prefix length_mailto)

lemma mailto_nonempty: "startswith v (pystr ''mailto:'') \<Longrightarrow> v \<noteq> []"
  by (auto simp: startswith_def pystr_def)

section \<open>extract_value: an empty selector, and the mailto prefix\<close>

text \<open>
  Claim C6. A structured field spec whose selector is missing or empty gives \<open>None\<close>
  for every element: no exception, no call on the page (the state is unchanged), on
  every page driver, also one whose calls all raise.
\<close>

theorem extract_value_empty_selector:
  assumes "selector = None \<or> selector = Some []"
  shows "extract_value page element (FieldDict selector attr) s = (Inr None, s)"
  using assms by (auto simp: truthy_def returnS_def)

text \<open>
  On the scripted page, for a missing selector and for an empty one: nothing is logged.
\<close>

theorem extract_value_empty_selector_witness:
  "extract_value scripted_page 0 (FieldDict None (Some (pystr ''href''))) \<lparr>heights = [], calls = []\<rparr>
     = (Inr None, \<lparr>heights = [], calls = []\<rparr>)
   \<and> extract_value scripted_page 0 (FieldDict (Some []) None) \<lparr>heights = [], calls = []\<rparr>
     = (Inr None, \<lparr>heights = [], calls = []\<rparr>)"
  using extract_value_empty_selector [of None scripted_page 0 "Some (pystr ''href'')"
      "\<lparr>heights = [], calls = []\<rparr>"]
    extract_value_empty_selector [of "Some []" scripted_page 0 None
      "\<lparr>heights = [], calls = []\<rparr>"]
  by simp

text \<open>
  Claim C4. For a structured field spec with an attribute, on an element whose selector
  lookup finds a target and whose attribute read returns \<open>v\<close>: when the attribute is
  \<open>href\<close> and the value starts with \<open>mailto:\<close> (these seven characters, compared
  exactly), the result is the normalized value without its first seven characters, so
  only the leading occurrence is removed; in every other case the value goes to
  normalization unchanged.
\<close>

theorem extract_value_attribute:
  assumes "sel \<noteq> []" and "name \<noteq> []"
    and "element_query_selector page element sel s = (Inr (Some target), s1)"
    and "element_get_attribute page target name s1 = (Inr v, s2)"
  shows "extract_value page element (FieldDict (Some sel) (Some name)) s =
           (Inr (normalize_text
                  (case v of
                     None \<Rightarrow> None
                   | Some x \<Rightarrow>
                       if name = pystr ''href'' \<and> startswith x (pystr ''mailto:'')
                       then Some (drop 7 x) else Some x)), s2)"
  using assms
  by (cases v) (simp_all add: bindS_def returnS_def truthy_def mailto_strip mailto_nonempty)

text \<open>
  On the scripted page: the \<open>href\<close> of the mail link of item 0.
\<close>

theorem extract_value_attribute_witness:
  "pystr ''a.mail'' \<noteq> [] \<and> pystr ''href'' \<noteq> []
   \<and> element_query_selector scripted_page 0 (pystr ''a.mail'') \<lparr>heights = [], calls = []\<rparr>
       = (Inr (Some 11),
          \<lparr>heights = [], calls = [ElementQuerySelector 0 (pystr ''a.mail'')]\<rparr>)
   \<and> element_get_attribute scripted_page 11 (pystr ''href'')
         \<lparr>heights = [], calls = [ElementQuerySelector 0 (pystr ''a.mail'')]\<rparr>
       = (Inr (Some (pystr ''mailto:info@acme.com'')),
          \<lparr>heights = [],
           calls = [ElementQuerySelector 0 (pystr ''a.mail''), GetAttribute 11 (pystr ''href'')]\<rparr>)
   \<and> extract_value scripted_page 0 (FieldDict (Some (pystr ''a.mail'')) (Some (pystr ''href'')))
         \<lparr>heights = [], calls = []\<rparr>
       = (Inr (Some (pystr ''info@acme.com'')),
          \<lparr>heights = [],
           calls = [ElementQuerySelector 0 (pystr ''a.mail''), GetAttribute 11 (pystr ''href'')]\<rparr>)"
proof -
  have a: "pystr ''a.mail'' \<noteq> []" and b: "pystr ''href'' \<noteq> []"
    by (simp_all add: pystr_def)
  have q: "element_query_selector scripted_page 0 (pystr ''a.mail'') \<lparr>heights = [], calls = []\<rparr>
       = (Inr (Some 11),
          \<lparr>heights = [], calls = [ElementQuerySelector 0 (pystr ''a.mail'')]\<rparr>)"
    by (simp add: scripted_page_def logged_def pystr_def)
  have g: "element_get_attribute scripted_page 11 (pystr ''href'')
         \<lparr>heights = [], calls = [ElementQuerySelector 0 (pystr ''a.mail'')]\<rparr>
       = (Inr (Some (pystr ''mailto:info@acme.com'')),
          \<lparr>heights = [],
           calls = [ElementQuerySelector 0 (pystr ''a.mail''), GetAttribute 11 (pystr ''href'')]\<rparr>)"
    by (simp add: scripted_page_def logged_def)
  have n: "normalize_text (Some (drop 7 (pystr ''mailto:info@acme.com''))) = Some (pystr ''info@acme.com'')"
    by (simp add: normalize_text_def split_def isspace_def pystr_def)
  have m: "startswith (pystr ''mailto:info@acme.com'') (pystr ''mailto:'')"
    by (simp add: startswith_def pystr_def)
  show ?thesis
    using extract_value_attribute [OF a b q g] a b q g n m by simp
qed

section \<open>paginate without a next-button selector\<close>

text \<open>
  Claim C3, amended. With no next-button selector (missing or empty): when \<open>max_pages\<close>
  is at least 1 (50 when absent), \<open>paginate\<close> is one invocation of the extraction
  callback and nothing else, so it returns the callback's rows (or its exception) and
  leaves the state the callback leaves; when \<open>max_pages\<close> is 0 or negative the callback
  is never invoked and the result is empty.
\<close>

theorem paginate_without_next_selector:
  assumes "\<not> truthy (next_button_selector pc)"
  shows "(1 \<le> get_or (max_pages pc) 50 \<longrightarrow> paginate page pc extract_callback = extract_callback)
       \<and> (get_or (max_pages pc) 50 \<le> 0 \<longrightarrow> paginate page pc extract_callback = returnS [])"
proof (intro conjI impI)
  assume "1 \<le> get_or (max_pages pc) 50"
  then obtain n where "nat (get_or (max_pages pc) 50) = Suc n"
    by (cases "nat (get_or (max_pages pc) 50)") auto
  then show "paginate page pc extract_callback = extract_callback"
    using assms by (simp add: paginate_def bindS_returnS_right)
next
  assume "get_or (max_pages pc) 50 \<le> 0"
  then show "paginate page pc extract_callback = returnS []"
    by (simp add: paginate_def)
qed

text \<open>
  On the scripted page with a callback that logs its invocation: one \<open>Extract\<close> in the
  log for the default \<open>max_pages\<close>, none for \<open>max_pages = -2\<close>.
\<close>

theorem paginate_without_next_selector_witness:
  "\<not> truthy (next_button_selector
       \<lparr>max_pages = None, next_button_selector = None, url_template = None,
        start_page = None, pause_ms = None\<rparr>)
   \<and> (1::int) \<le> get_or (max_pages
       \<lparr>max_pages = None, next_button_selector = None, url_template = None,
        start_page = None, pause_ms = None\<rparr>) 50
   \<and> paginate scripted_page
       \<lparr>max_pages = None, next_button_selector = None, url_template = None,
        start_page = None, pause_ms = None\<rparr>
       (logged_callback [[(pystr ''name'', None)]]) \<lparr>heights = [], calls = []\<rparr>
     = (Inr [[(pystr ''name'', None)]], \<lparr>heights = [], calls = [Extract]\<rparr>)
   \<and> \<not> truthy (next_button_selector
       \<lparr>max_pages = Some (- 2), next_button_selector = Some [], url_template = None,
        start_page = None, pause_ms = None\<rparr>)
   \<and> get_or (max_pages
       \<lparr>max_pages = Some (- 2), next_button_selector = Some [], url_template = None,
        start_page = None, pause_ms = None\<rparr>) 50 \<le> (0::int)
   \<and> paginate scripted_page
       \<lparr>max_pages = Some (- 2), next_button_selector = Some [], url_template = None,
        start_page = None, pause_ms = None\<rparr>
       (logged_callback [[(pystr ''name'', None)]]) \<lparr>heights = [], calls = []\<rparr>
     = (Inr [], \<lparr>heights = [], calls = []\<rparr>)"
proof -
  have a: "\<not> truthy (next_button_selector
       \<lparr>max_pages = None, next_button_selector = None, url_template = None,
        start_page = None, pause_ms = None\<rparr>)"
    by (simp add: truthy_def)
  have b: "\<not> truthy (next_button_selector
       \<lparr>max_pages = Some (- 2), next_button_selector = Some [], url_template = None,
        start_page = None, pause_ms = None\<rparr>)"
    by (simp add: truthy_def)
  show ?thesis
    using paginate_without_next_selector [OF a, of scripted_page "logged_callback [[(pystr ''name'', None)]]"]
      paginate_without_next_selector [OF b, of scripted_page "logged_callback [[(pystr ''name'', None)]]"]
      a b
    by (simp add: logged_callback_def logged_def returnS_def)
qed

text \<open>
  The claim as stated allows any \<open>max_pages\<close>. With \<open>max_pages = 0\<close> the loop body never
  runs: the log stays empty and the result is the empty list, not the callback's rows.
\<close>

theorem paginate_zero_pages_no_extraction:
  "paginate scripted_page
     \<lparr>max_pages = Some 0, next_button_selector = None, url_template = None,
      start_page = None, pause_ms = None\<rparr>
     (logged_callback [[(pystr ''name'', None)]]) \<lparr>heights = [], calls = []\<rparr>
   = (Inr [], \<lparr>heights = [], calls = []\<rparr>)
   \<and> logged_callback [[(pystr ''name'', None)]] \<lparr>heights = [], calls = []\<rparr>
   = (Inr [[(pystr ''name'', None)]], \<lparr>heights = [], calls = [Extract]\<rparr>)"
  by (simp add: paginate_def logged_callback_def logged_def returnS_def)

section \<open>main with an unknown mode\<close>

text \<open>
  Claim C2, amended. With a mode that is neither \<open>infinite_scroll\<close> nor \<open>pagination\<close>
  and a non-empty \<open>start_urls\<close>, the run navigates to the first start URL and then, if
  that navigation returned, ends with \<open>ValueError("Unknown mode: ...")\<close> in the state the
  navigation left: nothing is scrolled, queried or extracted and no further URL is
  visited. If the navigation raises, its exception ends the run.
\<close>

theorem main_unknown_mode:
  assumes "mode cfg = Some m"
    and "m \<noteq> pystr ''infinite_scroll''" and "m \<noteq> pystr ''pagination''"
    and "start_urls cfg = Some (url # urls)"
  shows "main page sleep format cfg s =
           (case goto page url (pystr ''networkidle'') s of
              (Inl e, s') \<Rightarrow> (Inl e, s')
            | (Inr u, s') \<Rightarrow> (Inl (ValueError (pystr ''Unknown mode: '' @ m)), s'))"
  using assms
  by (simp add: main_def get_or_def bindS_def raiseS_def split: prod.splits sum.splits)

text \<open>
  On the scripted page with two start URLs: the log holds the navigation to the first.
\<close>

theorem main_unknown_mode_witness:
  "mode \<lparr>start_urls = Some [pystr ''http://a/'', pystr ''http://b/''], mode = Some (pystr ''scroll''),
         scroll = None, pagination = None, extraction = None, columns = None,
         between_urls_pause_s = None\<rparr> = Some (pystr ''scroll'')
   \<and> pystr ''scroll'' \<noteq> pystr ''infinite_scroll''
   \<and> pystr ''scroll'' \<noteq> pystr ''pagination''
   \<and> main scripted_page scripted_sleep constant_format
       \<lparr>start_urls = Some [pystr ''http://a/'', pystr ''http://b/''], mode = Some (pystr ''scroll''),
        scroll = None, pagination = None, extraction = None, columns = None,
        between_urls_pause_s = None\<rparr>
       \<lparr>heights = [], calls = []\<rparr>
     = (Inl (ValueError (pystr ''Unknown mode: scroll'')),
        \<lparr>heights = [], calls = [Goto (pystr ''http://a/'')]\<rparr>)"
proof -
  have a: "pystr ''scroll'' \<noteq> pystr ''infinite_scroll''"
    and b: "pystr ''scroll'' \<noteq> pystr ''pagination''"
    by (simp_all add: pystr_def)
  have c: "pystr ''Unknown mode: '' @ pystr ''scroll'' = pystr ''Unknown mode: scroll''"
    by (simp add: pystr_def)
  show ?thesis
    using main_unknown_mode [of
        "\<lparr>start_urls = Some [pystr ''http://a/'', pystr ''http://b/''], mode = Some (pystr ''scroll''),
         scroll = None, pagination = None, extraction = None, columns = None,
         between_urls_pause_s = None\<rparr>"
        "pystr ''scroll''" "pystr ''http://a/''" "[pystr ''http://b/'']"
        scripted_page scripted_sleep constant_format "\<lparr>heights = [], calls = []\<rparr>"] a b c
    by (simp add: scripted_page_def logged_def)
qed

text \<open>
  The claim as stated says that no navigation happens. The mode is tested inside the
  loop over the start URLs, after \<open>page.goto\<close>: the log of the failed run holds one
  \<open>Goto\<close>.
\<close>

theorem main_unknown_mode_navigates_first:
  "main scripted_page scripted_sleep constant_format
     \<lparr>start_urls = Some [pystr ''http://a/''], mode = Some (pystr ''bogus''),
      scroll = None, pagination = None, extraction = None, columns = None,
      between_urls_pause_s = None\<rparr>
     \<lparr>heights = [], calls = []\<rparr>
   = (Inl (ValueError (pystr ''Unknown mode: bogus'')),
      \<lparr>heights = [], calls = [Goto (pystr ''http://a/'')]\<rparr>)"
  by (simp add: main_def bindS_def raiseS_def scripted_page_def logged_def pystr_def)

section \<open>scroll_page on scripted heights\<close>

lemma js_distinct: "JS_SCROLL_TO_BOTTOM \<noteq> JS_SCROLL_HEIGHT"
  by (simp add: JS_SCROLL_TO_BOTTOM_def JS_SCROLL_HEIGHT_def pystr_def)

lemma scripted_scroll:
  "evaluate scripted_page JS_SCROLL_TO_BOTTOM w =
     (Inr JSUndefined, w\<lparr>calls := calls w @ [Evaluate JS_SCROLL_TO_BOTTOM]\<rparr>)"
  by (simp add: scripted_page_def scripted_evaluate_def logged_def js_distinct)

lemma scripted_wait:
  "wait_for_timeout scripted_page ms w = (Inr (), w\<lparr>calls := calls w @ [WaitForTimeout ms]\<rparr>)"
  by (simp add: scripted_page_def logged_def)

lemma scripted_height:
  "evaluate scripted_page JS_SCROLL_HEIGHT w =
     (case heights w of
        [] \<Rightarrow> (Inl (LibraryError (pystr ''no height left'')),
               w\<lparr>calls := calls w @ [Evaluate JS_SCROLL_HEIGHT]\<rparr>)
      | h # hs \<Rightarrow> (Inr (JSNumber h),
               w\<lparr>heights := hs, calls := calls w @ [Evaluate JS_SCROLL_HEIGHT]\<rparr>))"
  by (simp add: scripted_page_def scripted_evaluate_def)

text \<open>
One iteration of the loop on the scripted page, with a reading left and with none.
\<close>

lemma scroll_loop_scripted_step:
  "scroll_loop scripted_page pause stop (Suc n) unchanged prev \<lparr>heights = h # hs, calls = log\<rparr> =
     (if stop \<le> (if JSNumber h = prev then unchanged + 1 else 0) then
        (Inr (), \<lparr>heights = hs,
                  calls = log @ [Evaluate JS_SCROLL_TO_BOTTOM, WaitForTimeout pause,
                                 Evaluate JS_SCROLL_HEIGHT]\<rparr>)
      else
        scroll_loop scripted_page pause stop n (if JSNumber h = prev then unchanged + 1 else 0)
          (JSNumber h)
          \<lparr>heights = hs,
           calls = log @ [Evaluate JS_SCROLL_TO_BOTTOM, WaitForTimeout pause,
                          Evaluate JS_SCROLL_HEIGHT]\<rparr>)"
  by (simp add: bindS_def scripted_scroll scripted_wait scripted_height returnS_def Let_def)

lemma scroll_loop_scripted_empty:
  "scroll_loop scripted_page pause stop (Suc n) unchanged prev \<lparr>heights = [], calls = log\<rparr> =
     (Inl (LibraryError (pystr ''no height left'')),
      \<lparr>heights = [],
       calls = log @ [Evaluate JS_SCROLL_TO_BOTTOM, WaitForTimeout pause,
                      Evaluate JS_SCROLL_HEIGHT]\<rparr>)"
  by (simp add: bindS_def scripted_scroll scripted_wait scripted_height)

lemma nat_5: "nat 5 = Suc (Suc (Suc (Suc (Suc 0))))"
  by simp

text \<open>
  The run of unchanged readings, reading by reading, and the counter of the loop.
\<close>

lemma unchanged_run_Nil [simp]: "unchanged_run first [] = 0"
  by (simp add: unchanged_run_def)

lemma unchanged_run_Cons:
  "unchanged_run first (h # hs) =
     (if list_all (\<lambda>(before, reading). reading = before) (zip (h # hs) hs)
      then length hs + (if h = first then 1 else 0)
      else unchanged_run h hs)"
proof (cases "list_all (\<lambda>(before, reading). reading = before) (zip (h # hs) hs)")
  case True
  then have "\<And>x. x \<in> set (rev (zip (h # hs) hs)) \<Longrightarrow> (\<lambda>(before, reading). reading = before) x"
    by (simp add: list_all_iff)
  then have "takeWhile (\<lambda>(before, reading). reading = before) (rev (zip (h # hs) hs) @ [(first, h)])
         = rev (zip (h # hs) hs) @ takeWhile (\<lambda>(before, reading). reading = before) [(first, h)]"
    by (rule takeWhile_append2)
  then show ?thesis using True by (simp add: unchanged_run_def)
next
  case False
  then obtain x where "x \<in> set (rev (zip (h # hs) hs))"
    "\<not> (\<lambda>(before, reading). reading = before) x"
    by (auto simp: list_all_iff)
  then have "takeWhile (\<lambda>(before, reading). reading = before) (rev (zip (h # hs) hs) @ [(first, h)])
         = takeWhile (\<lambda>(before, reading). reading = before) (rev (zip (h # hs) hs))"
    by (rule takeWhile_append1)
  then show ?thesis using False by (simp add: unchanged_run_def)
qed

lemma counter_after_Nil [simp]: "counter_after c first [] = c"
  by (simp add: counter_after_def)

lemma counter_after_Cons:
  "counter_after c first (h # hs) = counter_after (if h = first then c + 1 else 0) h hs"
  by (simp add: counter_after_def unchanged_run_Cons)

lemma counter_after_zero: "counter_after 0 first hs = int (unchanged_run first hs)"
proof -
  have "list_all (\<lambda>(before, reading). reading = before) (zip (first # hs) hs) \<Longrightarrow>
          unchanged_run first hs = length hs"
  proof -
    assume "list_all (\<lambda>(before, reading). reading = before) (zip (first # hs) hs)"
    then have "\<forall>x\<in>set (rev (zip (first # hs) hs)). (\<lambda>(before, reading). reading = before) x"
      by (simp add: list_all_iff)
    then have "takeWhile (\<lambda>(before, reading). reading = before) (rev (zip (first # hs) hs))
                 = rev (zip (first # hs) hs)"
      by (simp only: takeWhile_eq_all_conv)
    then have "length (takeWhile (\<lambda>(before, reading). reading = before) (rev (zip (first # hs) hs)))
                 = length (rev (zip (first # hs) hs))"
      by (rule arg_cong)
    then show "unchanged_run first hs = length hs"
      unfolding unchanged_run_def by simp
  qed
  then show ?thesis by (auto simp: counter_after_def)
qed

lemma measurements_Cons:
  "measurements page pause s (h # hs) = Some s' \<longleftrightarrow>
     (\<exists>s1. measurement page pause s = (Inr h, s1) \<and> measurements page pause s1 hs = Some s')"
  by (auto split: prod.splits sum.splits if_splits)

lemma scroll_loop_Suc:
  "measurement page pause s = (Inr h, s1) \<Longrightarrow>
     scroll_loop page pause stop (Suc n) c previous s =
       (if stop \<le> (if h = previous then c + 1 else 0) then (Inr (), s1)
        else scroll_loop page pause stop n (if h = previous then c + 1 else 0) h s1)"
  by (auto simp: measurement_def bindS_def returnS_def Let_def split: prod.splits sum.splits)

text \<open>
  The loop, started with the counter \<open>c\<close> and \<open>n\<close> iterations left, on a page whose next
  readings are \<open>hs\<close>: if the counter stays below \<open>stop\<close> before the last of them, and with
  the last it reaches \<open>stop\<close> or the iterations are used up, the loop ends there.
\<close>

lemma scroll_loop_halts:
  assumes "measurements page pause s hs = Some s'"
    and "length hs \<le> n"
    and "\<forall>j\<in>set [1..<length hs]. counter_after c previous (take j hs) < stop"
    and "(hs \<noteq> [] \<and> stop \<le> counter_after c previous hs) \<or> length hs = n"
  shows "scroll_loop page pause stop n c previous s = (Inr (), s')"
  using assms
proof (induction hs arbitrary: n c previous s)
  case Nil
  then show ?case by (simp add: returnS_def)
next
  case (Cons h hs)
  from measurements_Cons [THEN iffD1, OF Cons.prems(1)] obtain s1 where
    m: "measurement page pause s = (Inr h, s1)" and rest: "measurements page pause s1 hs = Some s'"
    by blast
  from Cons.prems(2) obtain n' where n: "n = Suc n'" by (cases n) auto
  define c' where "c' = (if h = previous then c + 1 else 0)"
  have step: "scroll_loop page pause stop n c previous s =
       (if stop \<le> c' then (Inr (), s1) else scroll_loop page pause stop n' c' h s1)"
    unfolding n c'_def by (rule scroll_loop_Suc [OF m])
  have first: "counter_after c previous [h] = c'"
    by (simp add: counter_after_Cons c'_def)
  show ?case
  proof (cases "stop \<le> c'")
    case True
    have "hs = []"
    proof (rule ccontr)
      assume "hs \<noteq> []"
      then have "0 < length hs" by simp
      then have "1 \<in> set [1..<length (h # hs)]" unfolding set_upt by simp
      then have "counter_after c previous (take 1 (h # hs)) < stop"
        using Cons.prems(3) by blast
      then show False using True first by simp
    qed
    then show ?thesis using step True rest by simp
  next
    case False
    have a: "length hs \<le> n'" using Cons.prems(2) n by simp
    have b: "\<forall>j\<in>set [1..<length hs]. counter_after c' h (take j hs) < stop"
    proof
      fix j assume "j \<in> set [1..<length hs]"
      then have "Suc j \<in> set [1..<length (h # hs)]" by auto
      then have "counter_after c previous (take (Suc j) (h # hs)) < stop"
        using Cons.prems(3) by blast
      then show "counter_after c' h (take j hs) < stop"
        by (simp add: counter_after_Cons c'_def)
    qed
    have c: "(hs \<noteq> [] \<and> stop \<le> counter_after c' h hs) \<or> length hs = n'"
    proof (cases "length (h # hs) = n")
      case True
      then show ?thesis using n by simp
    next
      case neq: False
      then have big: "stop \<le> counter_after c' h hs"
        using Cons.prems(4) by (simp add: counter_after_Cons c'_def)
      then have "hs \<noteq> []" using False by auto
      with big show ?thesis by simp
    qed
    show ?thesis using step False Cons.IH [OF rest a b c] by simp
  qed
qed

lemma scroll_loop_scripted_log:
  "\<exists>more. calls (snd (scroll_loop scripted_page pause stop n c previous w)) = calls w @ more"
proof (induction n arbitrary: c previous w)
  case 0
  show ?case by (simp add: returnS_def)
next
  case (Suc n)
  obtain hs log where w: "w = \<lparr>heights = hs, calls = log\<rparr>" by (cases w) auto
  show ?case
  proof (cases hs)
    case Nil
    then show ?thesis unfolding w by (simp add: scroll_loop_scripted_empty del: scroll_loop.simps(2))
  next
    case (Cons h hs')
    show ?thesis
    proof (cases "stop \<le> (if JSNumber h = previous then c + 1 else 0)")
      case True
      then show ?thesis unfolding w Cons
        by (simp add: scroll_loop_scripted_step del: scroll_loop.simps(2))
    next
      case False
      from Suc [of "if JSNumber h = previous then c + 1 else 0" "JSNumber h"
          "\<lparr>heights = hs',
            calls = log @ [Evaluate JS_SCROLL_TO_BOTTOM, WaitForTimeout pause,
                           Evaluate JS_SCROLL_HEIGHT]\<rparr>"]
      obtain more where
        "calls (snd (scroll_loop scripted_page pause stop n
            (if JSNumber h = previous then c + 1 else 0) (JSNumber h)
            \<lparr>heights = hs',
             calls = log @ [Evaluate JS_SCROLL_TO_BOTTOM, WaitForTimeout pause,
                            Evaluate JS_SCROLL_HEIGHT]\<rparr>))
         = (log @ [Evaluate JS_SCROLL_TO_BOTTOM, WaitForTimeout pause,
                   Evaluate JS_SCROLL_HEIGHT]) @ more"
        by auto
      then show ?thesis unfolding w Cons using False
        by (simp add: scroll_loop_scripted_step del: scroll_loop.simps(2))
    qed
  qed
qed

lemma scroll_page_halts:
  assumes "measurements page (get_or (scroll_pause_ms sc) 1200) s hs = Some s'"
    and "length hs \<le> nat (get_or (max_scrolls sc) 50)"
    and "\<forall>j\<in>set [1..<length hs].
           int (unchanged_run (JSNumber 0) (take j hs)) < get_or (stop_after_unchanged sc) 3"
    and "(hs \<noteq> [] \<and> get_or (stop_after_unchanged sc) 3 \<le> int (unchanged_run (JSNumber 0) hs))
         \<or> length hs = nat (get_or (max_scrolls sc) 50)"
  shows "scroll_page page sc s = (Inr (), s')"
  unfolding scroll_page_def
  using assms by (intro scroll_loop_halts) (simp_all add: counter_after_zero)

lemma scroll_four_readings:
  assumes "4 < m"
  shows "\<exists>k. scroll_page scripted_page
           \<lparr>max_scrolls = Some m, scroll_pause_ms = p, stop_after_unchanged = Some 3\<rparr>
           \<lparr>heights = [100, 200, 200, 200] @ rest, calls = log\<rparr>
         = scroll_loop scripted_page (get_or p 1200) 3 (Suc k) 2 (JSNumber 200)
             \<lparr>heights = rest,
              calls = log @
               [Evaluate JS_SCROLL_TO_BOTTOM, WaitForTimeout (get_or p 1200), Evaluate JS_SCROLL_HEIGHT,
                Evaluate JS_SCROLL_TO_BOTTOM, WaitForTimeout (get_or p 1200), Evaluate JS_SCROLL_HEIGHT,
                Evaluate JS_SCROLL_TO_BOTTOM, WaitForTimeout (get_or p 1200), Evaluate JS_SCROLL_HEIGHT,
                Evaluate JS_SCROLL_TO_BOTTOM, WaitForTimeout (get_or p 1200), Evaluate JS_SCROLL_HEIGHT]\<rparr>"
proof -
  have "nat m = Suc (Suc (Suc (Suc (Suc (nat m - 5)))))"
    using assms by linarith
  then obtain k where k: "nat m = Suc (Suc (Suc (Suc (Suc k))))" ..
  show ?thesis
    by (rule exI [of _ k])
       (simp add: scroll_page_def k scroll_loop_scripted_step del: scroll_loop.simps(2))
qed

lemma scroll_fifth_iteration:
  "\<exists>more. calls (snd (scroll_loop scripted_page pause stop (Suc k) c previous
                        \<lparr>heights = rest, calls = log\<rparr>))
     = log @ [Evaluate JS_SCROLL_TO_BOTTOM, WaitForTimeout pause, Evaluate JS_SCROLL_HEIGHT] @ more"
proof (cases rest)
  case Nil
  then show ?thesis by (simp add: scroll_loop_scripted_empty del: scroll_loop.simps(2))
next
  case (Cons h hs')
  show ?thesis
  proof (cases "stop \<le> (if JSNumber h = previous then c + 1 else 0)")
    case True
    then show ?thesis unfolding Cons
      by (simp add: scroll_loop_scripted_step del: scroll_loop.simps(2))
  next
    case False
    from scroll_loop_scripted_log [of pause stop k
        "if JSNumber h = previous then c + 1 else 0" "JSNumber h"
        "\<lparr>heights = hs',
          calls = log @ [Evaluate JS_SCROLL_TO_BOTTOM, WaitForTimeout pause,
                         Evaluate JS_SCROLL_HEIGHT]\<rparr>"]
    obtain more where
      "calls (snd (scroll_loop scripted_page pause stop k
          (if JSNumber h = previous then c + 1 else 0) (JSNumber h)
          \<lparr>heights = hs',
           calls = log @ [Evaluate JS_SCROLL_TO_BOTTOM, WaitForTimeout pause,
                          Evaluate JS_SCROLL_HEIGHT]\<rparr>))
       = (log @ [Evaluate JS_SCROLL_TO_BOTTOM, WaitForTimeout pause,
                 Evaluate JS_SCROLL_HEIGHT]) @ more"
      by auto
    then show ?thesis unfolding Cons using False
      by (simp add: scroll_loop_scripted_step del: scroll_loop.simps(2))
  qed
qed

lemma measurement_scripted:
  "measurement scripted_page pause \<lparr>heights = h # hs, calls = log\<rparr> =
     (Inr (JSNumber h),
      \<lparr>heights = hs,
       calls = log @ [Evaluate JS_SCROLL_TO_BOTTOM, WaitForTimeout pause,
                      Evaluate JS_SCROLL_HEIGHT]\<rparr>)"
  by (simp add: measurement_def bindS_def scripted_scroll scripted_wait scripted_height)

text \<open>
  Claim C1, amended. For every page driver: when the next measurements of the page
  return the readings \<open>hs\<close>, the number of most recent readings that each equal the
  reading before them (the reading before the first being 0) stays below
  \<open>stop_after_unchanged\<close> before the last of them, and at the last one it reaches
  \<open>stop_after_unchanged\<close> or \<open>max_scrolls\<close> measurements have been made, then \<open>scroll_page\<close>
  returns in the state that last measurement left: it halts at the first measurement
  with \<open>stop_after_unchanged\<close> unchanged readings in a row, or after \<open>max_scrolls\<close>
  measurements, whichever comes first. With \<open>stop_after_unchanged = 3\<close>, for every
  \<open>max_scrolls\<close> larger than 4, every pause and whatever readings would follow: on the
  readings 100, 200, 200, 200, 200 the scripted page is measured exactly five times;
  on the readings 100, 200, 200, 200 the count is 2 after the fourth measurement and a
  fifth measurement is made.
\<close>

theorem scroll_page_halts_at_unchanged_run:
  "(measurements page (get_or (scroll_pause_ms sc) 1200) s hs = Some s'
      \<and> length hs \<le> nat (get_or (max_scrolls sc) 50)
      \<and> (\<forall>j\<in>set [1..<length hs].
            int (unchanged_run (JSNumber 0) (take j hs)) < get_or (stop_after_unchanged sc) 3)
      \<and> ((hs \<noteq> [] \<and> get_or (stop_after_unchanged sc) 3 \<le> int (unchanged_run (JSNumber 0) hs))
           \<or> length hs = nat (get_or (max_scrolls sc) 50))
    \<longrightarrow> scroll_page page sc s = (Inr (), s'))
   \<and> (4 < m \<longrightarrow>
        scroll_page scripted_page
           \<lparr>max_scrolls = Some m, scroll_pause_ms = p, stop_after_unchanged = Some 3\<rparr>
           \<lparr>heights = [100, 200, 200, 200, 200] @ rest, calls = log\<rparr>
         = (Inr (),
            \<lparr>heights = rest,
             calls = log @
               [Evaluate JS_SCROLL_TO_BOTTOM, WaitForTimeout (get_or p 1200), Evaluate JS_SCROLL_HEIGHT,
                Evaluate JS_SCROLL_TO_BOTTOM, WaitForTimeout (get_or p 1200), Evaluate JS_SCROLL_HEIGHT,
                Evaluate JS_SCROLL_TO_BOTTOM, WaitForTimeout (get_or p 1200), Evaluate JS_SCROLL_HEIGHT,
                Evaluate JS_SCROLL_TO_BOTTOM, WaitForTimeout (get_or p 1200), Evaluate JS_SCROLL_HEIGHT,
                Evaluate JS_SCROLL_TO_BOTTOM, WaitForTimeout (get_or p 1200), Evaluate JS_SCROLL_HEIGHT]\<rparr>)
      \<and> length (filter (\<lambda>e. e = Evaluate JS_SCROLL_HEIGHT)
            (calls (snd (scroll_page scripted_page
               \<lparr>max_scrolls = Some m, scroll_pause_ms = p, stop_after_unchanged = Some 3\<rparr>
               \<lparr>heights = [100, 200, 200, 200, 200] @ rest, calls = log\<rparr>))))
         = length (filter (\<lambda>e. e = Evaluate JS_SCROLL_HEIGHT) log) + 5)
   \<and> (4 < m \<longrightarrow>
        (\<exists>more. calls (snd (scroll_page scripted_page
               \<lparr>max_scrolls = Some m, scroll_pause_ms = p, stop_after_unchanged = Some 3\<rparr>
               \<lparr>heights = [100, 200, 200, 200] @ rest, calls = log\<rparr>))
          = log @
               [Evaluate JS_SCROLL_TO_BOTTOM, WaitForTimeout (get_or p 1200), Evaluate JS_SCROLL_HEIGHT,
                Evaluate JS_SCROLL_TO_BOTTOM, WaitForTimeout (get_or p 1200), Evaluate JS_SCROLL_HEIGHT,
                Evaluate JS_SCROLL_TO_BOTTOM, WaitForTimeout (get_or p 1200), Evaluate JS_SCROLL_HEIGHT,
                Evaluate JS_SCROLL_TO_BOTTOM, WaitForTimeout (get_or p 1200), Evaluate JS_SCROLL_HEIGHT,
                Evaluate JS_SCROLL_TO_BOTTOM, WaitForTimeout (get_or p 1200), Evaluate JS_SCROLL_HEIGHT]
               @ more))"
proof (intro conjI impI)
  assume "measurements page (get_or (scroll_pause_ms sc) 1200) s hs = Some s'
      \<and> length hs \<le> nat (get_or (max_scrolls sc) 50)
      \<and> (\<forall>j\<in>set [1..<length hs].
            int (unchanged_run (JSNumber 0) (take j hs)) < get_or (stop_after_unchanged sc) 3)
      \<and> ((hs \<noteq> [] \<and> get_or (stop_after_unchanged sc) 3 \<le> int (unchanged_run (JSNumber 0) hs))
           \<or> length hs = nat (get_or (max_scrolls sc) 50))"
  then show "scroll_page page sc s = (Inr (), s')"
    by (intro scroll_page_halts) blast+
next
  assume m: "4 < m"
  have "nat m = Suc (Suc (Suc (Suc (Suc (nat m - 5)))))"
    using m by linarith
  then obtain k where k: "nat m = Suc (Suc (Suc (Suc (Suc k))))" ..
  show run: "scroll_page scripted_page
           \<lparr>max_scrolls = Some m, scroll_pause_ms = p, stop_after_unchanged = Some 3\<rparr>
           \<lparr>heights = [100, 200, 200, 200, 200] @ rest, calls = log\<rparr>
         = (Inr (),
            \<lparr>heights = rest,
             calls = log @
               [Evaluate JS_SCROLL_TO_BOTTOM, WaitForTimeout (get_or p 1200), Evaluate JS_SCROLL_HEIGHT,
                Evaluate JS_SCROLL_TO_BOTTOM, WaitForTimeout (get_or p 1200), Evaluate JS_SCROLL_HEIGHT,
                Evaluate JS_SCROLL_TO_BOTTOM, WaitForTimeout (get_or p 1200), Evaluate JS_SCROLL_HEIGHT,
                Evaluate JS_SCROLL_TO_BOTTOM, WaitForTimeout (get_or p 1200), Evaluate JS_SCROLL_HEIGHT,
                Evaluate JS_SCROLL_TO_BOTTOM, WaitForTimeout (get_or p 1200), Evaluate JS_SCROLL_HEIGHT]\<rparr>)"
    by (simp add: scroll_page_def k scroll_loop_scripted_step del: scroll_loop.simps(2))
  show "length (filter (\<lambda>e. e = Evaluate JS_SCROLL_HEIGHT)
            (calls (snd (scroll_page scripted_page
               \<lparr>max_scrolls = Some m, scroll_pause_ms = p, stop_after_unchanged = Some 3\<rparr>
               \<lparr>heights = [100, 200, 200, 200, 200] @ rest, calls = log\<rparr>))))
         = length (filter (\<lambda>e. e = Evaluate JS_SCROLL_HEIGHT) log) + 5"
    unfolding run by (simp add: js_distinct)
next
  assume m: "4 < m"
  from scroll_four_readings [OF m, of p rest log] obtain k where
    four: "scroll_page scripted_page
           \<lparr>max_scrolls = Some m, scroll_pause_ms = p, stop_after_unchanged = Some 3\<rparr>
           \<lparr>heights = [100, 200, 200, 200] @ rest, calls = log\<rparr>
         = scroll_loop scripted_page (get_or p 1200) 3 (Suc k) 2 (JSNumber 200)
             \<lparr>heights = rest,
              calls = log @
               [Evaluate JS_SCROLL_TO_BOTTOM, WaitForTimeout (get_or p 1200), Evaluate JS_SCROLL_HEIGHT,
                Evaluate JS_SCROLL_TO_BOTTOM, WaitForTimeout (get_or p 1200), Evaluate JS_SCROLL_HEIGHT,
                Evaluate JS_SCROLL_TO_BOTTOM, WaitForTimeout (get_or p 1200), Evaluate JS_SCROLL_HEIGHT,
                Evaluate JS_SCROLL_TO_BOTTOM, WaitForTimeout (get_or p 1200), Evaluate JS_SCROLL_HEIGHT]\<rparr>"
    by blast
  show "\<exists>more. calls (snd (scroll_page scripted_page
               \<lparr>max_scrolls = Some m, scroll_pause_ms = p, stop_after_unchanged = Some 3\<rparr>
               \<lparr>heights = [100, 200, 200, 200] @ rest, calls = log\<rparr>))
          = log @
               [Evaluate JS_SCROLL_TO_BOTTOM, WaitForTimeout (get_or p 1200), Evaluate JS_SCROLL_HEIGHT,
                Evaluate JS_SCROLL_TO_BOTTOM, WaitForTimeout (get_or p 1200), Evaluate JS_SCROLL_HEIGHT,
                Evaluate JS_SCROLL_TO_BOTTOM, WaitForTimeout (get_or p 1200), Evaluate JS_SCROLL_HEIGHT,
                Evaluate JS_SCROLL_TO_BOTTOM, WaitForTimeout (get_or p 1200), Evaluate JS_SCROLL_HEIGHT,
                Evaluate JS_SCROLL_TO_BOTTOM, WaitForTimeout (get_or p 1200), Evaluate JS_SCROLL_HEIGHT]
               @ more"
    unfolding four
    using scroll_fifth_iteration [of "get_or p 1200" 3 k 2 "JSNumber 200" rest
        "log @
               [Evaluate JS_SCROLL_TO_BOTTOM, WaitForTimeout (get_or p 1200), Evaluate JS_SCROLL_HEIGHT,
                Evaluate JS_SCROLL_TO_BOTTOM, WaitForTimeout (get_or p 1200), Evaluate JS_SCROLL_HEIGHT,
                Evaluate JS_SCROLL_TO_BOTTOM, WaitForTimeout (get_or p 1200), Evaluate JS_SCROLL_HEIGHT,
                Evaluate JS_SCROLL_TO_BOTTOM, WaitForTimeout (get_or p 1200), Evaluate JS_SCROLL_HEIGHT]"]
    by (simp del: scroll_loop.simps(2))
qed

text \<open>
  On the scripted page: the readings 100, 100, 200, 200, 300, 300, 400 with
  \<open>max_scrolls = 7\<close>, where the count never exceeds 1 and all seven measurements are
  made; the five readings with \<open>max_scrolls = 50\<close>; and the four readings with
  \<open>max_scrolls = 50\<close>.
\<close>

theorem scroll_page_halts_at_unchanged_run_witness:
  "measurements scripted_page 1200
       \<lparr>heights = [100, 100, 200, 200, 300, 300, 400], calls = []\<rparr>
       [JSNumber 100, JSNumber 100, JSNumber 200, JSNumber 200, JSNumber 300, JSNumber 300,
        JSNumber 400]
     = Some \<lparr>heights = [],
         calls =
           [Evaluate JS_SCROLL_TO_BOTTOM, WaitForTimeout 1200, Evaluate JS_SCROLL_HEIGHT,
            Evaluate JS_SCROLL_TO_BOTTOM, WaitForTimeout 1200, Evaluate JS_SCROLL_HEIGHT,
            Evaluate JS_SCROLL_TO_BOTTOM, WaitForTimeout 1200, Evaluate JS_SCROLL_HEIGHT,
            Evaluate JS_SCROLL_TO_BOTTOM, WaitForTimeout 1200, Evaluate JS_SCROLL_HEIGHT,
            Evaluate JS_SCROLL_TO_BOTTOM, WaitForTimeout 1200, Evaluate JS_SCROLL_HEIGHT,
            Evaluate JS_SCROLL_TO_BOTTOM, WaitForTimeout 1200, Evaluate JS_SCROLL_HEIGHT,
            Evaluate JS_SCROLL_TO_BOTTOM, WaitForTimeout 1200, Evaluate JS_SCROLL_HEIGHT]\<rparr>
   \<and> unchanged_run (JSNumber 0)
       [JSNumber 100, JSNumber 100, JSNumber 200, JSNumber 200, JSNumber 300, JSNumber 300] = 1
   \<and> unchanged_run (JSNumber 0)
       [JSNumber 100, JSNumber 100, JSNumber 200, JSNumber 200, JSNumber 300, JSNumber 300,
        JSNumber 400] = 0
   \<and> scroll_page scripted_page
       \<lparr>max_scrolls = Some 7, scroll_pause_ms = None, stop_after_unchanged = Some 3\<rparr>
       \<lparr>heights = [100, 100, 200, 200, 300, 300, 400], calls = []\<rparr>
     = (Inr (),
        \<lparr>heights = [],
         calls =
           [Evaluate JS_SCROLL_TO_BOTTOM, WaitForTimeout 1200, Evaluate JS_SCROLL_HEIGHT,
            Evaluate JS_SCROLL_TO_BOTTOM, WaitForTimeout 1200, Evaluate JS_SCROLL_HEIGHT,
            Evaluate JS_SCROLL_TO_BOTTOM, WaitForTimeout 1200, Evaluate JS_SCROLL_HEIGHT,
            Evaluate JS_SCROLL_TO_BOTTOM, WaitForTimeout 1200, Evaluate JS_SCROLL_HEIGHT,
            Evaluate JS_SCROLL_TO_BOTTOM, WaitForTimeout 1200, Evaluate JS_SCROLL_HEIGHT,
            Evaluate JS_SCROLL_TO_BOTTOM, WaitForTimeout 1200, Evaluate JS_SCROLL_HEIGHT,
            Evaluate JS_SCROLL_TO_BOTTOM, WaitForTimeout 1200, Evaluate JS_SCROLL_HEIGHT]\<rparr>)
   \<and> (4::int) < 50
   \<and> scroll_page scripted_page
       \<lparr>max_scrolls = Some 50, scroll_pause_ms = None, stop_after_unchanged = Some 3\<rparr>
       \<lparr>heights = [100, 200, 200, 200, 200, 300], calls = []\<rparr>
     = (Inr (),
        \<lparr>heights = [300],
         calls =
           [Evaluate JS_SCROLL_TO_BOTTOM, WaitForTimeout 1200, Evaluate JS_SCROLL_HEIGHT,
            Evaluate JS_SCROLL_TO_BOTTOM, WaitForTimeout 1200, Evaluate JS_SCROLL_HEIGHT,
            Evaluate JS_SCROLL_TO_BOTTOM, WaitForTimeout 1200, Evaluate JS_SCROLL_HEIGHT,
            Evaluate JS_SCROLL_TO_BOTTOM, WaitForTimeout 1200, Evaluate JS_SCROLL_HEIGHT,
            Evaluate JS_SCROLL_TO_BOTTOM, WaitForTimeout 1200, Evaluate JS_SCROLL_HEIGHT]\<rparr>)
   \<and> length (filter (\<lambda>e. e = Evaluate JS_SCROLL_HEIGHT)
        (calls (snd (scroll_page scripted_page
           \<lparr>max_scrolls = Some 50, scroll_pause_ms = None, stop_after_unchanged = Some 3\<rparr>
           \<lparr>heights = [100, 200, 200, 200, 200, 300], calls = []\<rparr>)))) = 5
   \<and> (\<exists>more. calls (snd (scroll_page scripted_page
           \<lparr>max_scrolls = Some 50, scroll_pause_ms = None, stop_after_unchanged = Some 3\<rparr>
           \<lparr>heights = [100, 200, 200, 200], calls = []\<rparr>))
        = [Evaluate JS_SCROLL_TO_BOTTOM, WaitForTimeout 1200, Evaluate JS_SCROLL_HEIGHT,
           Evaluate JS_SCROLL_TO_BOTTOM, WaitForTimeout 1200, Evaluate JS_SCROLL_HEIGHT,
           Evaluate JS_SCROLL_TO_BOTTOM, WaitForTimeout 1200, Evaluate JS_SCROLL_HEIGHT,
           Evaluate JS_SCROLL_TO_BOTTOM, WaitForTimeout 1200, Evaluate JS_SCROLL_HEIGHT,
           Evaluate JS_SCROLL_TO_BOTTOM, WaitForTimeout 1200, Evaluate JS_SCROLL_HEIGHT] @ more)"
proof -
  let ?hs = "[JSNumber 100, JSNumber 100, JSNumber 200, JSNumber 200, JSNumber 300, JSNumber 300,
        JSNumber 400]"
  let ?sc = "\<lparr>max_scrolls = Some 7, scroll_pause_ms = None, stop_after_unchanged = Some 3\<rparr>"
  have readings: "measurements scripted_page 1200
       \<lparr>heights = [100, 100, 200, 200, 300, 300, 400], calls = []\<rparr> ?hs
     = Some \<lparr>heights = [],
         calls =
           [Evaluate JS_SCROLL_TO_BOTTOM, WaitForTimeout 1200, Evaluate JS_SCROLL_HEIGHT,
            Evaluate JS_SCROLL_TO_BOTTOM, WaitForTimeout 1200, Evaluate JS_SCROLL_HEIGHT,
            Evaluate JS_SCROLL_TO_BOTTOM, WaitForTimeout 1200, Evaluate JS_SCROLL_HEIGHT,
            Evaluate JS_SCROLL_TO_BOTTOM, WaitForTimeout 1200, Evaluate JS_SCROLL_HEIGHT,
            Evaluate JS_SCROLL_TO_BOTTOM, WaitForTimeout 1200, Evaluate JS_SCROLL_HEIGHT,
            Evaluate JS_SCROLL_TO_BOTTOM, WaitForTimeout 1200, Evaluate JS_SCROLL_HEIGHT,
            Evaluate JS_SCROLL_TO_BOTTOM, WaitForTimeout 1200, Evaluate JS_SCROLL_HEIGHT]\<rparr>"
    by (simp add: measurement_scripted)
  have bound: "length ?hs \<le> nat (get_or (max_scrolls ?sc) 50)"
    by simp
  have idx: "set [1..<length ?hs] = {1, 2, 3, 4, 5, 6}"
    by auto
  have early: "\<forall>j\<in>set [1..<length ?hs].
      int (unchanged_run (JSNumber 0) (take j ?hs)) < get_or (stop_after_unchanged ?sc) 3"
    unfolding idx by (simp add: unchanged_run_def)
  have ending: "(?hs \<noteq> [] \<and> get_or (stop_after_unchanged ?sc) 3 \<le> int (unchanged_run (JSNumber 0) ?hs))
      \<or> length ?hs = nat (get_or (max_scrolls ?sc) 50)"
    by simp
  have runs: "unchanged_run (JSNumber 0)
       [JSNumber 100, JSNumber 100, JSNumber 200, JSNumber 200, JSNumber 300, JSNumber 300] = 1"
    "unchanged_run (JSNumber 0) ?hs = 0"
    by (simp_all add: unchanged_run_def)
  have m: "(4::int) < 50" by simp
  note inst = scroll_page_halts_at_unchanged_run
    [of scripted_page ?sc "\<lparr>heights = [100, 100, 200, 200, 300, 300, 400], calls = []\<rparr>" ?hs _
        50 None "[300]" "[]"]
  note inst4 = scroll_page_halts_at_unchanged_run
    [of scripted_page ?sc "\<lparr>heights = [100, 100, 200, 200, 300, 300, 400], calls = []\<rparr>" ?hs _
        50 None "[]" "[]"]
  have readings': "measurements scripted_page (get_or (scroll_pause_ms ?sc) 1200)
       \<lparr>heights = [100, 100, 200, 200, 300, 300, 400], calls = []\<rparr> ?hs
     = Some \<lparr>heights = [],
         calls =
           [Evaluate JS_SCROLL_TO_BOTTOM, WaitForTimeout 1200, Evaluate JS_SCROLL_HEIGHT,
            Evaluate JS_SCROLL_TO_BOTTOM, WaitForTimeout 1200, Evaluate JS_SCROLL_HEIGHT,
            Evaluate JS_SCROLL_TO_BOTTOM, WaitForTimeout 1200, Evaluate JS_SCROLL_HEIGHT,
            Evaluate JS_SCROLL_TO_BOTTOM, WaitForTimeout 1200, Evaluate JS_SCROLL_HEIGHT,
            Evaluate JS_SCROLL_TO_BOTTOM, WaitForTimeout 1200, Evaluate JS_SCROLL_HEIGHT,
            Evaluate JS_SCROLL_TO_BOTTOM, WaitForTimeout 1200, Evaluate JS_SCROLL_HEIGHT,
            Evaluate JS_SCROLL_TO_BOTTOM, WaitForTimeout 1200, Evaluate JS_SCROLL_HEIGHT]\<rparr>"
    using readings by simp
  have
    a: "scroll_page scripted_page ?sc \<lparr>heights = [100, 100, 200, 200, 300, 300, 400], calls = []\<rparr>
     = (Inr (),
        \<lparr>heights = [],
         calls =
           [Evaluate JS_SCROLL_TO_BOTTOM, WaitForTimeout 1200, Evaluate JS_SCROLL_HEIGHT,
            Evaluate JS_SCROLL_TO_BOTTOM, WaitForTimeout 1200, Evaluate JS_SCROLL_HEIGHT,
            Evaluate JS_SCROLL_TO_BOTTOM, WaitForTimeout 1200, Evaluate JS_SCROLL_HEIGHT,
            Evaluate JS_SCROLL_TO_BOTTOM, WaitForTimeout 1200, Evaluate JS_SCROLL_HEIGHT,
            Evaluate JS_SCROLL_TO_BOTTOM, WaitForTimeout 1200, Evaluate JS_SCROLL_HEIGHT,
            Evaluate JS_SCROLL_TO_BOTTOM, WaitForTimeout 1200, Evaluate JS_SCROLL_HEIGHT,
            Evaluate JS_SCROLL_TO_BOTTOM, WaitForTimeout 1200, Evaluate JS_SCROLL_HEIGHT]\<rparr>)"
    by (rule inst [THEN conjunct1, THEN mp]) (intro conjI readings' bound early ending)
  from inst [THEN conjunct2, THEN conjunct1, THEN mp, OF m] have b: "scroll_page scripted_page
       \<lparr>max_scrolls = Some 50, scroll_pause_ms = None, stop_after_unchanged = Some 3\<rparr>
       \<lparr>heights = [100, 200, 200, 200, 200, 300], calls = []\<rparr>
     = (Inr (),
        \<lparr>heights = [300],
         calls =
           [Evaluate JS_SCROLL_TO_BOTTOM, WaitForTimeout 1200, Evaluate JS_SCROLL_HEIGHT,
            Evaluate JS_SCROLL_TO_BOTTOM, WaitForTimeout 1200, Evaluate JS_SCROLL_HEIGHT,
            Evaluate JS_SCROLL_TO_BOTTOM, WaitForTimeout 1200, Evaluate JS_SCROLL_HEIGHT,
            Evaluate JS_SCROLL_TO_BOTTOM, WaitForTimeout 1200, Evaluate JS_SCROLL_HEIGHT,
            Evaluate JS_SCROLL_TO_BOTTOM, WaitForTimeout 1200, Evaluate JS_SCROLL_HEIGHT]\<rparr>)"
    by simp
  from inst4 [THEN conjunct2, THEN conjunct2, THEN mp, OF m] have c: "\<exists>more. calls (snd (scroll_page scripted_page
           \<lparr>max_scrolls = Some 50, scroll_pause_ms = None, stop_after_unchanged = Some 3\<rparr>
           \<lparr>heights = [100, 200, 200, 200], calls = []\<rparr>))
        = [Evaluate JS_SCROLL_TO_BOTTOM, WaitForTimeout 1200, Evaluate JS_SCROLL_HEIGHT,
           Evaluate JS_SCROLL_TO_BOTTOM, WaitForTimeout 1200, Evaluate JS_SCROLL_HEIGHT,
           Evaluate JS_SCROLL_TO_BOTTOM, WaitForTimeout 1200, Evaluate JS_SCROLL_HEIGHT,
           Evaluate JS_SCROLL_TO_BOTTOM, WaitForTimeout 1200, Evaluate JS_SCROLL_HEIGHT,
           Evaluate JS_SCROLL_TO_BOTTOM, WaitForTimeout 1200, Evaluate JS_SCROLL_HEIGHT] @ more"
    by simp
  have d: "length (filter (\<lambda>e. e = Evaluate JS_SCROLL_HEIGHT)
        (calls (snd (scroll_page scripted_page
           \<lparr>max_scrolls = Some 50, scroll_pause_ms = None, stop_after_unchanged = Some 3\<rparr>
           \<lparr>heights = [100, 200, 200, 200, 200, 300], calls = []\<rparr>)))) = 5"
    unfolding b by (simp add: js_distinct)
  show ?thesis
    using readings runs a m b c d by (intro conjI)
qed

text \<open>
  The claim as stated has the loop halt after the four readings 100, 200, 200, 200.
  After the fourth the counter is 2, so with \<open>max_scrolls = 5\<close> the loop scrolls and
  measures a fifth time; the scripted page has no fifth reading and raises.
\<close>

theorem scroll_page_fifth_measurement:
  "scroll_page scripted_page
     \<lparr>max_scrolls = Some 5, scroll_pause_ms = None, stop_after_unchanged = Some 3\<rparr>
     \<lparr>heights = [100, 200, 200, 200], calls = []\<rparr>
   = (Inl (LibraryError (pystr ''no height left'')),
      \<lparr>heights = [],
       calls =
         [Evaluate JS_SCROLL_TO_BOTTOM, WaitForTimeout 1200, Evaluate JS_SCROLL_HEIGHT,
          Evaluate JS_SCROLL_TO_BOTTOM, WaitForTimeout 1200, Evaluate JS_SCROLL_HEIGHT,
          Evaluate JS_SCROLL_TO_BOTTOM, WaitForTimeout 1200, Evaluate JS_SCROLL_HEIGHT,
          Evaluate JS_SCROLL_TO_BOTTOM, WaitForTimeout 1200, Evaluate JS_SCROLL_HEIGHT,
          Evaluate JS_SCROLL_TO_BOTTOM, WaitForTimeout 1200, Evaluate JS_SCROLL_HEIGHT]\<rparr>)
   \<and> length (filter (\<lambda>e. e = Evaluate JS_SCROLL_HEIGHT)
        (calls (snd (scroll_page scripted_page
           \<lparr>max_scrolls = Some 5, scroll_pause_ms = None, stop_after_unchanged = Some 3\<rparr>
           \<lparr>heights = [100, 200, 200, 200], calls = []\<rparr>)))) = 5"
proof -
  have run: "scroll_page scripted_page
     \<lparr>max_scrolls = Some 5, scroll_pause_ms = None, stop_after_unchanged = Some 3\<rparr>
     \<lparr>heights = [100, 200, 200, 200], calls = []\<rparr>
   = (Inl (LibraryError (pystr ''no height left'')),
      \<lparr>heights = [],
       calls =
         [Evaluate JS_SCROLL_TO_BOTTOM, WaitForTimeout 1200, Evaluate JS_SCROLL_HEIGHT,
          Evaluate JS_SCROLL_TO_BOTTOM, WaitForTimeout 1200, Evaluate JS_SCROLL_HEIGHT,
          Evaluate JS_SCROLL_TO_BOTTOM, WaitForTimeout 1200, Evaluate JS_SCROLL_HEIGHT,
          Evaluate JS_SCROLL_TO_BOTTOM, WaitForTimeout 1200, Evaluate JS_SCROLL_HEIGHT,
          Evaluate JS_SCROLL_TO_BOTTOM, WaitForTimeout 1200, Evaluate JS_SCROLL_HEIGHT]\<rparr>)"
    by (simp add: scroll_page_def get_or_def nat_5 scroll_loop_scripted_step
        scroll_loop_scripted_empty del: nat_numeral scroll_loop.simps(2))
  show ?thesis
    unfolding run by (simp add: js_distinct)
qed

section \<open>extract_items: one record per element\<close>

lemma extract_record_keys:
  "extract_record page element fs acc s = (Inr r, s') \<Longrightarrow>
     keys r = keys acc @ rev (remdups (rev (filter (\<lambda>k. k \<notin> set (keys acc)) (keys fs))))"
proof (induction fs arbitrary: acc s)
  case Nil
  then show ?case by (simp add: returnS_def keys_Nil)
next
  case (Cons f fs)
  obtain name fc where f: "f = (name, fc)" by (cases f)
  from Cons.prems obtain v s1 where
    rest: "extract_record page element fs (dict_set acc name v) s1 = (Inr r, s')"
    by (auto simp: f bindS_Inr_iff)
  note ih = Cons.IH [OF rest]
  have kf: "keys (f # fs) = name # keys fs" by (simp add: keys_def f)
  show ?case
  proof (cases "name \<in> set (keys acc)")
    case True
    then show ?thesis using ih by (simp add: kf keys_dict_set)
  next
    case False
    have "(\<lambda>x. x \<notin> set (keys acc) \<and> x \<noteq> name) = (\<lambda>x. x \<noteq> name \<and> x \<notin> set (keys acc))"
      by auto
    then show ?thesis using False ih
      by (simp add: kf keys_dict_set first_occ_Cons del: rev.simps remdups.simps)
  qed
qed

lemma extract_value_succeeds:
  assumes "reads_succeed page"
  shows "\<exists>v s'. extract_value page element fc s = (Inr v, s')"
proof -
  have q: "\<And>h sel s. \<exists>r s'. element_query_selector page h sel s = (Inr r, s')"
    and t: "\<And>h s. \<exists>r s'. element_inner_text page h s = (Inr r, s')"
    and g: "\<And>h name s. \<exists>r s'. element_get_attribute page h name s = (Inr r, s')"
    using assms by (auto simp: reads_succeed_def)
  show ?thesis
  proof (cases fc)
    case (Selector sel)
    obtain target s1 where q1: "element_query_selector page element sel s = (Inr target, s1)"
      using q by blast
    show ?thesis
    proof (cases target)
      case None
      then show ?thesis using Selector q1 by (simp add: bindS_def returnS_def)
    next
      case (Some h)
      obtain body s2 where "element_inner_text page h s1 = (Inr body, s2)" using t by blast
      then show ?thesis using Selector q1 Some by (simp add: bindS_def returnS_def)
    qed
  next
    case (FieldDict selector attr)
    show ?thesis
    proof (cases "truthy selector")
      case False
      then show ?thesis using FieldDict by (simp add: returnS_def)
    next
      case True
      obtain target s1 where
        q1: "element_query_selector page element (the selector) s = (Inr target, s1)"
        using q by blast
      show ?thesis
      proof (cases target)
        case None
        then show ?thesis using FieldDict True q1 by (simp add: bindS_def returnS_def)
      next
        case (Some h)
        show ?thesis
        proof (cases "truthy attr")
          case False
          obtain body s2 where "element_inner_text page h s1 = (Inr body, s2)" using t by blast
          then show ?thesis
            using FieldDict True q1 Some False by (simp add: bindS_def returnS_def)
        next
          case attr: True
          obtain v s2 where "element_get_attribute page h (the attr) s1 = (Inr v, s2)"
            using g by blast
          then show ?thesis
            using FieldDict True q1 Some attr by (simp add: bindS_def returnS_def)
        qed
      qed
    qed
  qed
qed

lemma extract_record_succeeds:
  assumes "reads_succeed page"
  shows "\<exists>r s'. extract_record page element fs acc s = (Inr r, s')"
proof (induction fs arbitrary: acc s)
  case Nil
  show ?case by (simp add: returnS_def)
next
  case (Cons f fs)
  obtain name fc where f: "f = (name, fc)" by (cases f)
  obtain v s1 where "extract_value page element fc s = (Inr v, s1)"
    using extract_value_succeeds [OF assms] by blast
  then show ?case using Cons [of "dict_set acc name v" s1] by (simp add: f bindS_def)
qed

lemma extract_items_loop_succeeds:
  assumes "reads_succeed page"
  shows "\<exists>out s'. extract_items_loop page fs elements items s = (Inr out, s')"
proof (induction elements arbitrary: items s)
  case Nil
  show ?case by (simp add: returnS_def)
next
  case (Cons element elements)
  obtain r s1 where "extract_record page element fs [] s = (Inr r, s1)"
    using extract_record_succeeds [OF assms] by blast
  then show ?case using Cons [of "items @ [r]" s1] by (simp add: bindS_def)
qed

text \<open>
  A successful run of the loop visits the elements from left to right: there is the
  chain of the states between the elements, and the i-th record is what the inner loop
  returns for the i-th element in the i-th state.
\<close>

lemma extract_items_loop_chain:
  "extract_items_loop page fs elements items s = (Inr out, s') \<Longrightarrow>
     \<exists>recs ss. out = items @ recs \<and> length recs = length elements \<and>
       length ss = Suc (length elements) \<and> ss ! 0 = s \<and> ss ! length elements = s' \<and>
       (\<forall>i<length elements.
          extract_record page (elements ! i) fs [] (ss ! i) = (Inr (recs ! i), ss ! Suc i))"
proof (induction elements arbitrary: items s)
  case Nil
  then have "out = items" "s' = s" by (simp_all add: returnS_def)
  then show ?case by (intro exI [of _ "[]"] exI [of _ "[s]"]) simp
next
  case (Cons element elements)
  from Cons.prems obtain r s1 where
    first: "extract_record page element fs [] s = (Inr r, s1)" and
    rest: "extract_items_loop page fs elements (items @ [r]) s1 = (Inr out, s')"
    by (auto simp: bindS_Inr_iff)
  from Cons.IH [OF rest] obtain recs ss where
    out: "out = (items @ [r]) @ recs" and len: "length recs = length elements" and
    lss: "length ss = Suc (length elements)" and ss0: "ss ! 0 = s1" and
    ssn: "ss ! length elements = s'" and
    step: "\<forall>i<length elements.
             extract_record page (elements ! i) fs [] (ss ! i) = (Inr (recs ! i), ss ! Suc i)"
    by blast
  have "\<forall>i<length (element # elements).
          extract_record page ((element # elements) ! i) fs [] ((s # ss) ! i)
            = (Inr ((r # recs) ! i), (s # ss) ! Suc i)"
  proof (intro allI impI)
    fix i assume "i < length (element # elements)"
    then show "extract_record page ((element # elements) ! i) fs [] ((s # ss) ! i)
                 = (Inr ((r # recs) ! i), (s # ss) ! Suc i)"
      using first ss0 step by (cases i) simp_all
  qed
  then show ?case
    using out len lss ssn
    by (intro exI [of _ "r # recs"] exI [of _ "s # ss"]) simp
qed

text \<open>
  Claim C7. For a configuration with an item selector and field specs, in a state where
  \<open>query_selector_all\<close> returns the elements: whenever \<open>extract_items\<close> returns, it returns
  exactly one record per element, the i-th record built from the i-th element (in the
  order of the elements, each in the state its predecessor left), and the keys of every
  record are the field names of the schema, whatever the values are; no record is left
  out. And it does return whenever the element reads of the page do not raise.
\<close>

theorem extract_items_one_record_per_element:
  assumes "extraction cfg = Some ex" and "item_selector ex = Some sel"
    and "field_configs ex = Some fs"
    and "query_selector_all page sel s = (Inr elements, s1)"
  shows "(\<forall>recs s'. extract_items page cfg s = (Inr recs, s') \<longrightarrow>
            length recs = length elements
          \<and> (\<exists>ss. length ss = Suc (length elements) \<and> ss ! 0 = s1 \<and> ss ! length elements = s'
                \<and> (\<forall>i<length elements.
                      extract_record page (elements ! i) fs [] (ss ! i)
                        = (Inr (recs ! i), ss ! Suc i)))
          \<and> (\<forall>i<length elements.
                keys (recs ! i) = rev (remdups (rev (keys fs)))
              \<and> (\<forall>name \<in> set (keys fs). name \<in> set (keys (recs ! i)))))
       \<and> (reads_succeed page \<longrightarrow> (\<exists>recs s'. extract_items page cfg s = (Inr recs, s')))"
proof -
  have unfold: "extract_items page cfg s = extract_items_loop page fs elements [] s1"
    using assms by (simp add: extract_items_def bindS_def)
  have partial: "\<forall>recs s'. extract_items page cfg s = (Inr recs, s') \<longrightarrow>
            length recs = length elements
          \<and> (\<exists>ss. length ss = Suc (length elements) \<and> ss ! 0 = s1 \<and> ss ! length elements = s'
                \<and> (\<forall>i<length elements.
                      extract_record page (elements ! i) fs [] (ss ! i)
                        = (Inr (recs ! i), ss ! Suc i)))
          \<and> (\<forall>i<length elements.
                keys (recs ! i) = rev (remdups (rev (keys fs)))
              \<and> (\<forall>name \<in> set (keys fs). name \<in> set (keys (recs ! i))))"
  proof (intro allI impI)
    fix recs s'
    assume run: "extract_items page cfg s = (Inr recs, s')"
    then have "extract_items_loop page fs elements [] s1 = (Inr recs, s')"
      by (simp add: unfold)
    from extract_items_loop_chain [OF this] obtain ss where
      len: "length recs = length elements" and
      chain: "length ss = Suc (length elements)" "ss ! 0 = s1" "ss ! length elements = s'"
        "\<forall>i<length elements.
            extract_record page (elements ! i) fs [] (ss ! i) = (Inr (recs ! i), ss ! Suc i)"
      by auto
    have ks: "\<forall>i<length elements.
                keys (recs ! i) = rev (remdups (rev (keys fs)))
              \<and> (\<forall>name \<in> set (keys fs). name \<in> set (keys (recs ! i)))"
    proof (intro allI impI)
      fix i assume "i < length elements"
      then have "extract_record page (elements ! i) fs [] (ss ! i) = (Inr (recs ! i), ss ! Suc i)"
        using chain(4) by blast
      from extract_record_keys [OF this]
      have "keys (recs ! i) = rev (remdups (rev (keys fs)))"
        by (simp add: keys_Nil)
      then show "keys (recs ! i) = rev (remdups (rev (keys fs)))
              \<and> (\<forall>name \<in> set (keys fs). name \<in> set (keys (recs ! i)))"
        by simp
    qed
    show "length recs = length elements
          \<and> (\<exists>ss. length ss = Suc (length elements) \<and> ss ! 0 = s1 \<and> ss ! length elements = s'
                \<and> (\<forall>i<length elements.
                      extract_record page (elements ! i) fs [] (ss ! i)
                        = (Inr (recs ! i), ss ! Suc i)))
          \<and> (\<forall>i<length elements.
                keys (recs ! i) = rev (remdups (rev (keys fs)))
              \<and> (\<forall>name \<in> set (keys fs). name \<in> set (keys (recs ! i))))"
      using len chain ks by blast
  qed
  have total: "reads_succeed page \<longrightarrow> (\<exists>recs s'. extract_items page cfg s = (Inr recs, s'))"
    using extract_items_loop_succeeds [of page fs elements "[]" s1] by (simp add: unfold)
  show ?thesis
    using partial total by (rule conjI)
qed

text \<open>
  On the scripted page with the fields \<open>name\<close> (a bare selector) and \<open>email\<close> (the \<open>href\<close>
  of the mail link): two items, two records, the second with \<open>None\<close> in every field.
\<close>

theorem extract_items_one_record_per_element_witness:
  "query_selector_all scripted_page (pystr ''li'') \<lparr>heights = [], calls = []\<rparr>
     = (Inr [0, 1], \<lparr>heights = [], calls = [QuerySelectorAll (pystr ''li'')]\<rparr>)
   \<and> reads_succeed scripted_page
   \<and> extract_items scripted_page
       \<lparr>start_urls = None, mode = None, scroll = None, pagination = None,
        extraction = Some
          \<lparr>item_selector = Some (pystr ''li''),
           field_configs = Some
             [(pystr ''name'', Selector (pystr ''h1'')),
              (pystr ''email'', FieldDict (Some (pystr ''a.mail'')) (Some (pystr ''href'')))]\<rparr>,
        columns = None, between_urls_pause_s = None\<rparr>
       \<lparr>heights = [], calls = []\<rparr>
     = (Inr [[(pystr ''name'', Some (pystr ''Acme Corp'')),
              (pystr ''email'', Some (pystr ''info@acme.com''))],
             [(pystr ''name'', None), (pystr ''email'', None)]],
        \<lparr>heights = [],
         calls =
           [QuerySelectorAll (pystr ''li''),
            ElementQuerySelector 0 (pystr ''h1''), InnerText 10,
            ElementQuerySelector 0 (pystr ''a.mail''), GetAttribute 11 (pystr ''href''),
            ElementQuerySelector 1 (pystr ''h1''),
            ElementQuerySelector 1 (pystr ''a.mail'')]\<rparr>)"
proof -
  have q: "query_selector_all scripted_page (pystr ''li'') \<lparr>heights = [], calls = []\<rparr>
     = (Inr [0, 1], \<lparr>heights = [], calls = [QuerySelectorAll (pystr ''li'')]\<rparr>)"
    by (simp add: scripted_page_def logged_def)
  have r: "reads_succeed scripted_page"
    by (simp add: reads_succeed_def scripted_page_def logged_def)
  have t: "normalize_text (Some (pystr ''  Acme Corp '')) = Some (pystr ''Acme Corp'')"
    by (simp add: normalize_text_def split_def isspace_def pystr_def)
  have n: "normalize_text (Some (replace_first (pystr ''mailto:'') [] (pystr ''mailto:info@acme.com'')))
             = Some (pystr ''info@acme.com'')"
    by (simp add: normalize_text_def split_def isspace_def pystr_def startswith_def)
  have m: "startswith (pystr ''mailto:info@acme.com'') (pystr ''mailto:'')"
    by (simp add: startswith_def pystr_def)
  have neq: "pystr ''h1'' \<noteq> pystr ''a.mail''" "pystr ''a.mail'' \<noteq> pystr ''h1''"
    "pystr ''email'' \<noteq> pystr ''name''" "pystr ''name'' \<noteq> pystr ''email''"
    "pystr ''a.mail'' \<noteq> []" "pystr ''href'' \<noteq> []" "pystr ''mailto:info@acme.com'' \<noteq> []"
    by (simp_all add: pystr_def)
  have run: "extract_items scripted_page
       \<lparr>start_urls = None, mode = None, scroll = None, pagination = None,
        extraction = Some
          \<lparr>item_selector = Some (pystr ''li''),
           field_configs = Some
             [(pystr ''name'', Selector (pystr ''h1'')),
              (pystr ''email'', FieldDict (Some (pystr ''a.mail'')) (Some (pystr ''href'')))]\<rparr>,
        columns = None, between_urls_pause_s = None\<rparr>
       \<lparr>heights = [], calls = []\<rparr>
     = (Inr [[(pystr ''name'', Some (pystr ''Acme Corp'')),
              (pystr ''email'', Some (pystr ''info@acme.com''))],
             [(pystr ''name'', None), (pystr ''email'', None)]],
        \<lparr>heights = [],
         calls =
           [QuerySelectorAll (pystr ''li''),
            ElementQuerySelector 0 (pystr ''h1''), InnerText 10,
            ElementQuerySelector 0 (pystr ''a.mail''), GetAttribute 11 (pystr ''href''),
            ElementQuerySelector 1 (pystr ''h1''),
            ElementQuerySelector 1 (pystr ''a.mail'')]\<rparr>)"
    by (simp add: extract_items_def bindS_def returnS_def scripted_page_def logged_def
        truthy_def t n m neq)
  show ?thesis
    using q r run
      extract_items_one_record_per_element [OF _ _ _ q,
        of "\<lparr>start_urls = None, mode = None, scroll = None, pagination = None,
        extraction = Some
          \<lparr>item_selector = Some (pystr ''li''),
           field_configs = Some
             [(pystr ''name'', Selector (pystr ''h1'')),
              (pystr ''email'', FieldDict (Some (pystr ''a.mail'')) (Some (pystr ''href'')))]\<rparr>,
        columns = None, between_urls_pause_s = None\<rparr>"
        "\<lparr>item_selector = Some (pystr ''li''),
           field_configs = Some
             [(pystr ''name'', Selector (pystr ''h1'')),
              (pystr ''email'', FieldDict (Some (pystr ''a.mail'')) (Some (pystr ''href'')))]\<rparr>"
        "[(pystr ''name'', Selector (pystr ''h1'')),
              (pystr ''email'', FieldDict (Some (pystr ''a.mail'')) (Some (pystr ''href'')))]"]
    by simp
qed

end
